theory Spec2Isabelle
  imports Main "HOL-Library.Word"
begin

unbundle bit_operations_syntax

section \<open>Bytes and errors\<close>

text \<open>
  Files, lines and payloads are byte strings: \<open>string\<close> is \<open>char list\<close> and a
  \<open>char\<close> is one byte. \<open>uint64\<close> is \<open>64 word\<close>, \<open>uint32\<close> is \<open>32 word\<close>.
  Every error the two source files build with \<open>errors.New\<close> or \<open>fmt.Errorf\<close> is a
  constructor; an error handed back by the standard library or the operating system is
  \<open>LibError\<close> with its message, and a run-time panic is \<open>Panic\<close>.
\<close>

datatype error =
    LibError string
  | Panic string
  | UnregisteredCommandType string
  | WriterRequired
  | ReaderRequired
  | UnableToReadChecksum error
  | ExpectedSpace char
  | UnexpectedEOF
  | InvalidChecksum "32 word" "32 word"
  | UnableToScan error
  | UnableToInstantiate string error
  | UnableToDecode error
  | ExpectedEOL char
  | UnableToRecover error
  | CommitIndexAhead "64 word" "64 word"
  | LogNotOpen
  | EarlierTerm "64 word" "64 word" "64 word" "64 word"
  | EarlierIndex "64 word" "64 word" "64 word" "64 word"

definition newline :: char where
  "newline = CHR 0x0A"

section \<open>The standard library, as far as the log uses it\<close>

subsection \<open>Printing: the verbs \<open>%016x\<close> and \<open>%08x\<close> of \<open>fmt.Fprintf\<close>\<close>

definition hexdigit :: "nat \<Rightarrow> char" where
  "hexdigit d = ''0123456789abcdef'' ! d"

text \<open>\<open>%x\<close> of an unsigned integer: its lower-case hexadecimal digits, at least one.\<close>

fun fmt_x :: "nat \<Rightarrow> string" where
  "fmt_x n = (if n < 16 then [hexdigit n] else fmt_x (n div 16) @ [hexdigit (n mod 16)])"

declare fmt_x.simps [simp del]

text \<open>The flag \<open>0\<close> with a width: zeros on the left up to the width, never a cut.\<close>

definition pad0 :: "nat \<Rightarrow> string \<Rightarrow> string" where
  "pad0 w s = replicate (w - length s) CHR ''0'' @ s"

definition fmt_016x :: "64 word \<Rightarrow> string" where
  "fmt_016x v = pad0 16 (fmt_x (unat v))"

definition fmt_08x :: "32 word \<Rightarrow> string" where
  "fmt_08x v = pad0 8 (fmt_x (unat v))"

subsection \<open>\<open>crc32.ChecksumIEEE\<close>\<close>

text \<open>
  CRC-32 with the IEEE polynomial in its reflected form \<open>0xedb88320\<close>, initial value and
  final complement \<open>0xffffffff\<close>, one bit at a time (the library's tables compute the
  same function).
\<close>

definition crc_bit :: "32 word \<Rightarrow> 32 word" where
  "crc_bit c = (if bit c 0 then drop_bit 1 c XOR 0xedb88320 else drop_bit 1 c)"

definition crc_byte :: "32 word \<Rightarrow> char \<Rightarrow> 32 word" where
  "crc_byte c b = (crc_bit ^^ 8) (c XOR of_char b)"

definition ChecksumIEEE :: "string \<Rightarrow> 32 word" where
  "ChecksumIEEE s = NOT (foldl crc_byte (NOT 0) s)"

subsection \<open>Scanning: \<open>fmt.Fscanf\<close>\<close>

text \<open>
  The scanner of package \<open>fmt\<close> on a reader that can unread (a \<open>bufio.Reader\<close>, a
  \<open>bytes.Buffer\<close>), so that it consumes exactly what it accepts. The input is read
  byte by byte: the scanner's UTF-8 decoding of bytes from \<open>0x80\<close> on and its limit of
  \<open>2^30\<close> runes for one call are not modelled, and the theorems on scanning are about
  ASCII names.
\<close>

definition isSpace :: "char \<Rightarrow> bool" where
  "isSpace c = (c \<in> {CHR 0x09, CHR 0x0A, CHR 0x0B, CHR 0x0C, CHR 0x0D, CHR '' ''})"

text \<open>
  \<open>SkipSpace\<close> with \<open>nlIsSpace = false\<close>, as \<open>Fscanf\<close> runs it: blanks are skipped and a
  newline is the error \<open>unexpected newline\<close>.
\<close>

fun SkipSpace :: "string \<Rightarrow> error + string" where
  "SkipSpace [] = Inr []"
| "SkipSpace (c # cs) =
     (if c = newline then Inl (LibError ''unexpected newline'')
      else if isSpace c then SkipSpace cs
      else Inr (c # cs))"

definition hexval :: "char \<Rightarrow> nat option" where
  "hexval c =
     (let n = (of_char c :: nat) in
      if 48 \<le> n \<and> n \<le> 57 then Some (n - 48)
      else if 97 \<le> n \<and> n \<le> 102 then Some (n - 87)
      else if 65 \<le> n \<and> n \<le> 70 then Some (n - 55)
      else None)"

text \<open>\<open>strconv.ParseUint(tok, 16, 64)\<close> on a token of at most 16 characters.\<close>

fun ParseUint :: "string \<Rightarrow> nat \<Rightarrow> nat option" where
  "ParseUint [] acc = Some acc"
| "ParseUint (c # cs) acc =
     (case hexval c of None \<Rightarrow> None | Some d \<Rightarrow> ParseUint cs (acc * 16 + d))"

text \<open>The characters \<open>scanNumber\<close> accepts for the verb \<open>x\<close>: \<open>0123456789aAbBcCdDeEfF\<close>.\<close>

definition hexadecimalDigits :: "char \<Rightarrow> bool" where
  "hexadecimalDigits c = (hexval c \<noteq> None)"

text \<open>
  One verb \<open>%0Wx\<close> into an unsigned integer of \<open>bits\<close> bits: skip blanks, fail with
  \<open>io.EOF\<close> at the end of the input, take the digits (at most \<open>W\<close> characters, at
  least one), convert.
\<close>

definition scanUint :: "nat \<Rightarrow> nat \<Rightarrow> string \<Rightarrow> error + (nat \<times> string)" where
  "scanUint w bits s =
     (case SkipSpace s of
        Inl err \<Rightarrow> Inl err
      | Inr s1 \<Rightarrow>
          if s1 = [] then Inl (LibError ''EOF'')
          else
            let tok = takeWhile hexadecimalDigits (take w s1) in
            if tok = [] then Inl (LibError ''expected integer'')
            else
              (case ParseUint tok 0 of
                 None \<Rightarrow> Inl (LibError ''invalid syntax'')
               | Some v \<Rightarrow>
                   if v < 2 ^ bits then Inr (v, drop (length tok) s1)
                   else Inl (LibError ''unsigned integer overflow'')))"

text \<open>
  A blank in the format that follows no newline: the input must go on with a blank
  that is no newline (or be at its end), and every further blank up to a newline is
  skipped.
\<close>

definition matchSpace :: "string \<Rightarrow> error + string" where
  "matchSpace s =
     (case s of
        [] \<Rightarrow> Inr []
      | c # cs \<Rightarrow>
          if \<not> isSpace c then Inl (LibError ''expected space in input to match format'')
          else if c = newline then Inl (LibError ''newline in input does not match format'')
          else Inr (dropWhile (\<lambda>x. isSpace x \<and> x \<noteq> newline) cs))"

text \<open>
  The verb \<open>%s\<close>: skip blanks, fail with \<open>io.EOF\<close> at the end of the input, take
  the next word.
\<close>

definition scanString :: "string \<Rightarrow> error + (string \<times> string)" where
  "scanString s =
     (case SkipSpace s of
        Inl err \<Rightarrow> Inl err
      | Inr s1 \<Rightarrow>
          if s1 = [] then Inl (LibError ''EOF'')
          else Inr (takeWhile (\<lambda>x. \<not> isSpace x) s1, dropWhile (\<lambda>x. \<not> isSpace x) s1))"

text \<open>
  \<open>fmt.Fscanf(b, "%016x %016x %s ", &e.index, &e.term, &commandName)\<close>: the three
  values and what is left in the buffer \<open>b\<close>.
\<close>

definition Fscanf_line :: "string \<Rightarrow> error + (64 word \<times> 64 word \<times> string \<times> string)" where
  "Fscanf_line s =
     (case scanUint 16 64 s of
        Inl err \<Rightarrow> Inl err
      | Inr (i, s1) \<Rightarrow>
     (case matchSpace s1 of
        Inl err \<Rightarrow> Inl err
      | Inr s2 \<Rightarrow>
     (case scanUint 16 64 s2 of
        Inl err \<Rightarrow> Inl err
      | Inr (t, s3) \<Rightarrow>
     (case matchSpace s3 of
        Inl err \<Rightarrow> Inl err
      | Inr s4 \<Rightarrow>
     (case scanString s4 of
        Inl err \<Rightarrow> Inl err
      | Inr (commandName, s5) \<Rightarrow>
     (case matchSpace s5 of
        Inl err \<Rightarrow> Inl err
      | Inr s6 \<Rightarrow> Inr (word_of_nat i, word_of_nat t, commandName, s6)))))))"

text \<open>\<open>bufr.ReadString('\n')\<close>: the line with its newline and the rest, or no newline.\<close>

definition ReadString :: "string \<Rightarrow> (string \<times> string) option" where
  "ReadString s =
     (if newline \<in> set s
      then Some (takeWhile (\<lambda>x. x \<noteq> newline) s @ [newline],
                 tl (dropWhile (\<lambda>x. x \<noteq> newline) s))
      else None)"

subsection \<open>Decoding: \<open>json.NewDecoder(b).Decode\<close>\<close>

text \<open>
  A decoder of \<open>encoding/json\<close> reads from its reader into a buffer of its own and
  gives no byte back: what it has read beyond the value it decodes is no longer in
  the reader.

  The scanner is modelled on objects and arrays. \<open>scanEnd d q esc s\<close> goes through \<open>s\<close>
  with \<open>d\<close> brackets open, \<open>q\<close> inside a string and \<open>esc\<close> after a backslash there, up
  to the bracket that closes the first one, and gives the number of bytes up to and
  with it; it needs no look at the byte that follows. The syntax between the brackets
  is the matter of the unmarshalling. A value that starts with another byte, which no
  example has, is answered with an error.
\<close>

definition dquote :: char where
  "dquote = CHR 0x22"

definition backslash :: char where
  "backslash = CHR 0x5C"

fun scanEnd :: "nat \<Rightarrow> bool \<Rightarrow> bool \<Rightarrow> string \<Rightarrow> nat option" where
  "scanEnd d q esc [] = None"
| "scanEnd d q esc (c # cs) =
     (if q then map_option Suc (scanEnd d (esc \<or> c \<noteq> dquote) (\<not> esc \<and> c = backslash) cs)
      else if c = dquote then map_option Suc (scanEnd d True False cs)
      else if c = CHR ''{'' \<or> c = CHR ''['' then map_option Suc (scanEnd (Suc d) False False cs)
      else if c = CHR ''}'' \<or> c = CHR '']'' then
        (if d \<le> 1 then Some 1 else map_option Suc (scanEnd (d - 1) False False cs))
      else map_option Suc (scanEnd d False False cs))"

definition valueEnd :: "string \<Rightarrow> (error + nat) option" where
  "valueEnd buf =
     (case buf of
        [] \<Rightarrow> None
      | c # cs \<Rightarrow>
          if c = CHR ''{'' \<or> c = CHR ''['' then map_option Inr (scanEnd 0 False False buf)
          else Some (Inl (LibError ''invalid character looking for beginning of value'')))"

text \<open>
  \<open>readValue\<close> on the buffer \<open>buf\<close>, which has \<open>room\<close> more bytes of capacity, and a
  reader that holds \<open>r\<close>. It scans the buffer for the end of the value and, while the
  value has not ended, reads once more (\<open>refill\<close>): a buffer with room for less than
  \<open>minRead\<close> bytes is moved into one of twice the capacity plus \<open>minRead\<close>, which has
  room for \<open>length buf + 2 * room + minRead\<close> bytes, then one \<open>Read\<close> takes as many
  bytes as the room and the reader allow. So the first read is of up to 512 bytes and
  the second of up to 1024. The result is the bytes of the value and what the reader
  still holds; the bytes of the buffer after the value stay with the decoder. At the
  end of the reader \<open>Read\<close> returns \<open>io.EOF\<close>, which inside a value is
  \<open>io.ErrUnexpectedEOF\<close>.
\<close>

definition minRead :: nat where
  "minRead = 512"

function readValue :: "string \<Rightarrow> nat \<Rightarrow> string \<Rightarrow> error + (string \<times> string)" where
  "readValue buf room r =
     (case valueEnd buf of
        Some (Inl err) \<Rightarrow> Inl err
      | Some (Inr n) \<Rightarrow> Inr (take n buf, r)
      | None \<Rightarrow>
          if r = [] then Inl (LibError (if buf = [] then ''EOF'' else ''unexpected EOF''))
          else
            let room' = (if room < minRead then length buf + 2 * room + minRead else room);
                n = min room' (length r)
            in readValue (buf @ take n r) (room' - n) (drop n r))"
  by pat_completeness auto

termination readValue
  by (relation "measure (\<lambda>(buf, room, r). length r)") (auto simp: minRead_def Let_def)

declare readValue.simps [simp del]

text \<open>
  \<open>Decode\<close> of the decoder, as its first call: \<open>readValue\<close> on the empty buffer, then
  the unmarshalling of the bytes of the value into the target, which is the argument
  \<open>unmarshal\<close>.
\<close>

definition Decoder_Decode :: "(string \<Rightarrow> error + 'c) \<Rightarrow> string \<Rightarrow> error + ('c \<times> string)" where
  "Decoder_Decode unmarshal b =
     (case readValue [] 0 b of
        Inl err \<Rightarrow> Inl err
      | Inr (v, b') \<Rightarrow>
          (case unmarshal v of
             Inl err \<Rightarrow> Inl err
           | Inr c \<Rightarrow> Inr (c, b')))"

section \<open>Commands\<close>

text \<open>
  \<open>Command\<close> is an interface the application implements; the log uses \<open>Name()\<close>,
  \<open>json.Marshal\<close>, \<open>reflect.New\<close> of the prototype's type and \<open>json.NewDecoder(b).Decode\<close>.
  They are the fields of a record over the type \<open>'c\<close> of command values.
  \<open>json_Decode api target buf\<close> is the decoder on a buffer holding \<open>buf\<close>: an error, or
  the filled command and the bytes the decoder has left unread in the buffer. For a
  command type, it is \<open>Decoder_Decode\<close> with the unmarshalling of the type.
\<close>

record 'c Command =
  Name :: "'c \<Rightarrow> string"
  json_Marshal :: "'c \<Rightarrow> error + string"
  reflect_New :: "'c \<Rightarrow> 'c"
  json_Decode :: "'c \<Rightarrow> string \<Rightarrow> error + ('c \<times> string)"

section \<open>log_entry.go\<close>

text \<open>
  The field \<open>log\<close> of an entry is a pointer to the log that owns it; \<open>Decode\<close> reads the
  command types through it, and here takes them as the argument \<open>types\<close>.
\<close>

record 'c LogEntry =
  index :: "64 word"
  "term" :: "64 word"
  command :: "'c option"

definition NewLogEntry :: "64 word \<Rightarrow> 64 word \<Rightarrow> 'c option \<Rightarrow> 'c LogEntry" where
  "NewLogEntry i t c = \<lparr>index = i, term = t, command = c\<rparr>"

text \<open>An \<open>io.Writer\<close>: what one call of \<open>Write\<close> does to the state behind it.\<close>

type_synonym 'w Writer = "string \<Rightarrow> 'w \<Rightarrow> 'w \<times> error option"

text \<open>The line without its checksum, as \<open>Encode\<close> prints it into its buffer.\<close>

definition payload_line :: "'c Command \<Rightarrow> 'c LogEntry \<Rightarrow> 'c \<Rightarrow> string \<Rightarrow> string" where
  "payload_line api e c encodedCommand =
     fmt_016x (index e) @ '' '' @ fmt_016x (term e) @ '' '' @ Name api c @ '' '' @
     encodedCommand @ [newline]"

definition Encode :: "'c Command \<Rightarrow> 'c LogEntry \<Rightarrow> 'w Writer option \<Rightarrow> 'w \<Rightarrow> 'w \<times> error option" where
  "Encode api e w s =
     (case w of
        None \<Rightarrow> (s, Some WriterRequired)
      | Some wr \<Rightarrow>
          (case command e of
             None \<Rightarrow> (s, Some (Panic ''nil pointer dereference''))
           | Some c \<Rightarrow>
               (case json_Marshal api c of
                  Inl err \<Rightarrow> (s, Some err)
                | Inr encodedCommand \<Rightarrow>
                    let b = payload_line api e c encodedCommand;
                        checksum = ChecksumIEEE b
                    in wr (fmt_08x checksum @ '' '' @ b) s)))"

text \<open>
  \<open>NewCommand\<close> of log.go, on the command types of the log. A pointer to the
  prototype's type has every method of the type, so the conversion to \<open>Command\<close> that
  guards the panic cannot fail.
\<close>

definition NewCommand :: "'c Command \<Rightarrow> (string \<rightharpoonup> 'c) \<Rightarrow> string \<Rightarrow> error + 'c" where
  "NewCommand api types name =
     (case types name of
        None \<Rightarrow> Inl (UnregisteredCommandType name)
      | Some c \<Rightarrow> Inr (reflect_New api c))"

text \<open>
  \<open>Decode\<close> on a reader that holds \<open>s\<close> (\<open>None\<close> is the nil reader). The result is
  \<open>pos\<close> and the error or, without one, the entry as filled and what the reader still
  holds. \<open>Open\<close> passes a \<open>bufio.Reader\<close> of the default size, which \<open>bufio.NewReader\<close>
  returns as it is, so nothing is read ahead. After an error no caller looks at the
  entry or the reader, and the result does not hold them.
\<close>

definition Decode ::
  "'c Command \<Rightarrow> (string \<rightharpoonup> 'c) \<Rightarrow> 'c LogEntry \<Rightarrow> string option \<Rightarrow>
   nat \<times> (error + ('c LogEntry \<times> string))" where
  "Decode api types e r =
     (case r of
        None \<Rightarrow> (0, Inl ReaderRequired)
      | Some s \<Rightarrow>
     (case scanUint 8 32 s of
        Inl err \<Rightarrow> (0, Inl (UnableToReadChecksum err))
      | Inr (checksum, s1) \<Rightarrow>
     (case s1 of
        [] \<Rightarrow> (8, Inl (ExpectedSpace (CHR 0x00)))
      | c # s2 \<Rightarrow>
          if c \<noteq> CHR '' '' then (8, Inl (ExpectedSpace c))
          else
     (case ReadString s2 of
        None \<Rightarrow> (9 + length s2, Inl UnexpectedEOF)
      | Some (line, rest) \<Rightarrow>
          let pos = 9 + length line;
              bchecksum = ChecksumIEEE line
          in
          if word_of_nat checksum \<noteq> bchecksum
          then (pos, Inl (InvalidChecksum (word_of_nat checksum) bchecksum))
          else
     (case Fscanf_line line of
        Inl err \<Rightarrow> (pos, Inl (UnableToScan err))
      | Inr (i, t, commandName, b) \<Rightarrow>
     (case NewCommand api types commandName of
        Inl err \<Rightarrow> (pos, Inl (UnableToInstantiate commandName err))
      | Inr target \<Rightarrow>
     (case json_Decode api target b of
        Inl err \<Rightarrow> (pos, Inl (UnableToDecode err))
      | Inr (cmd, b') \<Rightarrow>
     (case b' of
        c # _ \<Rightarrow> (pos, Inl (ExpectedEOL c))
      | [] \<Rightarrow> (pos, Inr (e\<lparr>index := i, term := t, command := Some cmd\<rparr>, rest))))))))))"


subsection \<open>A decode that succeeds takes bytes from the reader\<close>

lemma SkipSpace_length: "SkipSpace s = Inr s1 \<Longrightarrow> length s1 \<le> length s"
  by (induction s) (auto split: if_splits)

lemma scanUint_consumes:
  assumes "scanUint w bits s = Inr (v, s1)"
  shows "length s1 < length s"
proof -
  obtain x where x: "SkipSpace s = Inr x" "x \<noteq> []"
    and tok: "takeWhile hexadecimalDigits (take w x) \<noteq> []"
    and s1: "s1 = drop (length (takeWhile hexadecimalDigits (take w x))) x"
    using assms unfolding scanUint_def
    by (auto simp: Let_def split: sum.splits if_splits option.splits)
  have "0 < length (takeWhile hexadecimalDigits (take w x))" using tok by simp
  moreover have "0 < length x" using x(2) by simp
  ultimately have "length s1 < length x" unfolding s1 by simp
  then show ?thesis using SkipSpace_length [OF x(1)] by simp
qed

lemma ReadString_length:
  assumes "ReadString s = Some (line, rest)"
  shows "length line + length rest = length s"
proof -
  let ?P = "\<lambda>x. x \<noteq> newline"
  have nl: "newline \<in> set s" and line: "line = takeWhile ?P s @ [newline]"
    and rest: "rest = tl (dropWhile ?P s)"
    using assms by (auto simp: ReadString_def split: if_splits)
  have "dropWhile ?P s \<noteq> []" using nl by (simp add: dropWhile_eq_Nil_conv)
  then have "length rest + 1 = length (dropWhile ?P s)" unfolding rest by simp
  moreover have "length (takeWhile ?P s) + length (dropWhile ?P s) = length s"
    using takeWhile_dropWhile_id [of ?P s] by (metis length_append)
  ultimately show ?thesis unfolding line by simp
qed

lemma Decode_consumes:
  assumes "Decode api types e (Some r) = (n, Inr (e', r'))"
  shows "length r' < length r"
proof -
  obtain v s2 line where a: "scanUint 8 32 r = Inr (v, CHR '' '' # s2)"
    and b: "ReadString s2 = Some (line, r')"
    using assms unfolding Decode_def
    by (auto simp: Let_def split: sum.splits list.splits if_splits option.splits prod.splits)
  have "length r' \<le> length s2" using ReadString_length [OF b] by simp
  then show ?thesis using scanUint_consumes [OF a] by simp
qed

section \<open>The operating system\<close>

text \<open>
  The files by path, and for each call that can fail what it answers: \<open>None\<close> is
  success. A write that fails may have written the first \<open>k\<close> bytes.
\<close>

record filesystem =
  files :: "string \<rightharpoonup> string"
  open_error :: "string \<Rightarrow> error option"
  truncate_error :: "string \<Rightarrow> error option"
  openfile_error :: "string \<Rightarrow> error option"
  write_error :: "string \<Rightarrow> string \<Rightarrow> (nat \<times> error) option"

text \<open>The file system with \<open>d\<close> as the content of the file at \<open>path\<close>.\<close>

definition put_file :: "filesystem \<Rightarrow> string \<Rightarrow> string \<Rightarrow> filesystem" where
  "put_file fs path d = fs\<lparr>files := (files fs)(path \<mapsto> d)\<rparr>"

text \<open>\<open>os.Truncate(path, n)\<close>: the file cut to \<open>n\<close> bytes, or grown with zero bytes.\<close>

definition os_Truncate :: "filesystem \<Rightarrow> string \<Rightarrow> nat \<Rightarrow> error + filesystem" where
  "os_Truncate fs path n =
     (case truncate_error fs path of
        Some err \<Rightarrow> Inl err
      | None \<Rightarrow>
          (case files fs path of
             None \<Rightarrow> Inl (LibError ''no such file or directory'')
           | Some d \<Rightarrow>
               Inr (put_file fs path (take n d @ replicate (n - length d) (CHR 0x00)))))"

text \<open>\<open>os.OpenFile(path, os.O_APPEND | os.O_CREATE | os.O_WRONLY, 0600)\<close>.\<close>

definition os_OpenFile :: "filesystem \<Rightarrow> string \<Rightarrow> error + filesystem" where
  "os_OpenFile fs path =
     (case openfile_error fs path of
        Some err \<Rightarrow> Inl err
      | None \<Rightarrow>
          (case files fs path of
             None \<Rightarrow> Inr (put_file fs path [])
           | Some d \<Rightarrow> Inr fs))"

text \<open>
  \<open>Write\<close> on the \<open>*os.File\<close> that \<open>Open\<close> has stored: the nil pointer answers
  \<open>invalid argument\<close>, an open file takes the bytes at its end.
\<close>

definition file_append :: "filesystem \<Rightarrow> string \<Rightarrow> string \<Rightarrow> filesystem" where
  "file_append fs path d =
     (case files fs path of
        None \<Rightarrow> fs
      | Some old \<Rightarrow> put_file fs path (old @ d))"

definition File_Write :: "string option \<Rightarrow> filesystem Writer" where
  "File_Write f d fs =
     (case f of
        None \<Rightarrow> (fs, Some (LibError ''invalid argument''))
      | Some path \<Rightarrow>
          (case write_error fs path d of
             Some (k, err) \<Rightarrow> (file_append fs path (take k d), Some err)
           | None \<Rightarrow> (file_append fs path d, None)))"

text \<open>\<open>Write\<close> on a \<open>bytes.Buffer\<close>.\<close>

definition buffer_Write :: "string Writer" where
  "buffer_Write d s = (s @ d, None)"

section \<open>log.go\<close>

text \<open>
  The field \<open>file\<close> is the path the handle was opened on, \<open>None\<close> the nil pointer. The
  mutex is left out: every method holds it from its first line to its return.
\<close>

record 'c Log =
  "file" :: "string option"
  entries :: "'c LogEntry list"
  commitIndex :: "64 word"
  commandTypes :: "string \<rightharpoonup> 'c"

definition NewLog :: "'c Log" where
  "NewLog = \<lparr>file = None, entries = [], commitIndex = 0, commandTypes = Map.empty\<rparr>"

definition AddCommandType :: "'c Command \<Rightarrow> 'c Log \<Rightarrow> 'c option \<Rightarrow> error + 'c Log" where
  "AddCommandType api l cmd =
     (case cmd of
        None \<Rightarrow> Inl (Panic ''raft.Log: Command type cannot be nil'')
      | Some c \<Rightarrow>
          if commandTypes l (Name api c) \<noteq> None
          then Inl (Panic ''raft.Log: Command type already exists'')
          else Inr (l\<lparr>commandTypes := (commandTypes l)(Name api c \<mapsto> c)\<rparr>))"

text \<open>
  The loop of \<open>Open\<close> over the reader, which holds \<open>r\<close>: the log, \<open>lastIndex\<close> and the
  error of the decode that stopped it. \<open>lastIndex\<close> is an \<open>int\<close> that only grows by
  lengths of lines read; it is a natural number here.
\<close>

function read_entries ::
  "'c Command \<Rightarrow> 'c Log \<Rightarrow> string \<Rightarrow> nat \<Rightarrow> 'c Log \<times> nat \<times> error option" where
  "read_entries api l r lastIndex =
     (if r = [] then (l, lastIndex, None)
      else
        (case Decode api (commandTypes l) (NewLogEntry 0 0 None) (Some r) of
           (n, Inl err) \<Rightarrow> (l, lastIndex, Some err)
         | (n, Inr (entry, r')) \<Rightarrow>
             read_entries api (l\<lparr>commitIndex := index entry, entries := entries l @ [entry]\<rparr>)
               r' (lastIndex + n)))"
  by pat_completeness auto

termination read_entries
  apply (relation "measure (\<lambda>(api, l, r, lastIndex). length r)")
   apply simp
  apply (auto dest: Decode_consumes [OF sym])
  done

declare read_entries.simps [simp del]

text \<open>
  \<open>Open\<close> up to the second \<open>os.OpenFile\<close>: the replay of the file, if \<open>os.Stat\<close> finds
  one. \<open>Inl\<close> is the early return with its error.
\<close>

definition Open_replay ::
  "'c Command \<Rightarrow> filesystem \<Rightarrow> 'c Log \<Rightarrow> string \<Rightarrow>
   ((filesystem \<times> 'c Log) \<times> error) + (filesystem \<times> 'c Log)" where
  "Open_replay api fs l path =
     (case files fs path of
        None \<Rightarrow> Inr (fs, l)
      | Some d \<Rightarrow>
          (case open_error fs path of
             Some err \<Rightarrow> Inl ((fs, l), err)
           | None \<Rightarrow>
               (case read_entries api l d 0 of
                  (l1, lastIndex, None) \<Rightarrow> Inr (fs, l1)
                | (l1, lastIndex, Some derr) \<Rightarrow>
                    (case os_Truncate fs path lastIndex of
                       Inl err \<Rightarrow> Inl ((fs, l1), UnableToRecover err)
                     | Inr fs1 \<Rightarrow> Inr (fs1, l1)))))"

definition Open ::
  "'c Command \<Rightarrow> filesystem \<Rightarrow> 'c Log \<Rightarrow> string \<Rightarrow> (filesystem \<times> 'c Log) \<times> error option" where
  "Open api fs l path =
     (case Open_replay api fs l path of
        Inl (st, err) \<Rightarrow> (st, Some err)
      | Inr (fs1, l1) \<Rightarrow>
          (case os_OpenFile fs1 path of
             Inl err \<Rightarrow> ((fs1, l1\<lparr>file := None\<rparr>), Some err)
           | Inr fs2 \<Rightarrow> ((fs2, l1\<lparr>file := Some path\<rparr>), None)))"

definition Close :: "filesystem \<Rightarrow> 'c Log \<Rightarrow> filesystem \<times> 'c Log" where
  "Close fs l = (fs, l\<lparr>file := None, entries := []\<rparr>)"

text \<open>
  The loop of \<open>SetCommitIndex\<close> over \<open>l.entries\<close>. The argument \<open>l.file\<close> of \<open>Encode\<close>
  is a \<open>*os.File\<close> in an \<open>io.Writer\<close>: the interface is not nil, also when the pointer
  is, and the test \<open>w == nil\<close> of \<open>Encode\<close> does not see the nil pointer.
\<close>

fun commit_loop ::
  "'c Command \<Rightarrow> filesystem \<Rightarrow> 'c Log \<Rightarrow> 64 word \<Rightarrow> 'c LogEntry list \<Rightarrow>
   (filesystem \<times> 'c Log) \<times> error option" where
  "commit_loop api fs l i [] = ((fs, l), None)"
| "commit_loop api fs l i (entry # es) =
     (if index entry > commitIndex l \<and> index entry \<le> i
      then
        (case Encode api entry (Some (File_Write (file l))) fs of
           (fs', Some err) \<Rightarrow> ((fs', l), Some err)
         | (fs', None) \<Rightarrow> commit_loop api fs' (l\<lparr>commitIndex := index entry\<rparr>) i es)
      else commit_loop api fs l i es)"

definition SetCommitIndex ::
  "'c Command \<Rightarrow> filesystem \<Rightarrow> 'c Log \<Rightarrow> 64 word \<Rightarrow> (filesystem \<times> 'c Log) \<times> error option" where
  "SetCommitIndex api fs l i =
     (if i < commitIndex l then ((fs, l), Some (CommitIndexAhead (commitIndex l) i))
      else commit_loop api fs l i (entries l))"

definition Append ::
  "filesystem \<Rightarrow> 'c Log \<Rightarrow> 'c LogEntry \<Rightarrow> (filesystem \<times> 'c Log) \<times> error option" where
  "Append fs l entry =
     (if file l = None then ((fs, l), Some LogNotOpen)
      else
        (case (if entries l \<noteq> []
               then
                 let lastEntry = last (entries l) in
                 if term entry < term lastEntry
                 then Some (EarlierTerm (term entry) (index entry) (term lastEntry) (index lastEntry))
                 else if index entry = index lastEntry \<and> index entry \<le> index lastEntry
                 then Some (EarlierIndex (term entry) (index entry) (term lastEntry) (index lastEntry))
                 else None
               else None) of
           Some err \<Rightarrow> ((fs, l), Some err)
         | None \<Rightarrow> ((fs, l\<lparr>entries := entries l @ [entry]\<rparr>), None)))"

section \<open>A caller of the log\<close>

text \<open>
  The four methods as calls on the pair of the file system and the log. \<open>run\<close> makes the
  calls one after the other; an error goes to the caller, who goes on.
\<close>

datatype 'c call =
    Call_Open string
  | Call_Close
  | Call_Append "'c LogEntry"
  | Call_SetCommitIndex "64 word"

fun do_call ::
  "'c Command \<Rightarrow> filesystem \<times> 'c Log \<Rightarrow> 'c call \<Rightarrow> (filesystem \<times> 'c Log) \<times> error option" where
  "do_call api (fs, l) (Call_Open path) = Open api fs l path"
| "do_call api (fs, l) Call_Close = (Close fs l, None)"
| "do_call api (fs, l) (Call_Append e) = Append fs l e"
| "do_call api (fs, l) (Call_SetCommitIndex i) = SetCommitIndex api fs l i"

fun run :: "'c Command \<Rightarrow> filesystem \<times> 'c Log \<Rightarrow> 'c call list \<Rightarrow> filesystem \<times> 'c Log" where
  "run api st [] = st"
| "run api st (c # cs) = run api (fst (do_call api st c)) cs"

fun is_Call_Open :: "'c call \<Rightarrow> bool" where
  "is_Call_Open (Call_Open path) = True"
| "is_Call_Open c = False"

text \<open>Appending entries one after the other, up to the first that is rejected.\<close>

fun Append_all ::
  "filesystem \<Rightarrow> 'c Log \<Rightarrow> 'c LogEntry list \<Rightarrow> (filesystem \<times> 'c Log) \<times> error option" where
  "Append_all fs l [] = ((fs, l), None)"
| "Append_all fs l (e # es) =
     (case Append fs l e of
        ((fs', l'), None) \<Rightarrow> Append_all fs' l' es
      | (st, Some err) \<Rightarrow> (st, Some err))"

section \<open>Notions of the statements\<close>

definition lower_hex :: "char \<Rightarrow> bool" where
  "lower_hex c = (c \<in> set ''0123456789abcdef'')"

text \<open>A name that the line format can carry: ASCII, not empty, no white space.\<close>

definition token :: "string \<Rightarrow> bool" where
  "token s = (s \<noteq> [] \<and> (\<forall>c \<in> set s. \<not> isSpace c \<and> (of_char c :: nat) < 128))"

text \<open>A serialized command as \<open>json.Marshal\<close> gives it: one line, no blank in front.\<close>

definition one_line :: "string \<Rightarrow> bool" where
  "one_line p = (p \<noteq> [] \<and> \<not> isSpace (hd p) \<and> newline \<notin> set p)"

text \<open>The bytes \<open>Encode\<close> writes for an entry, read off a \<open>bytes.Buffer\<close>.\<close>

definition encoding :: "'c Command \<Rightarrow> 'c LogEntry \<Rightarrow> string" where
  "encoding api e = fst (Encode api e (Some buffer_Write) [])"

definition encoded_line :: "'c Command \<Rightarrow> 'c LogEntry \<Rightarrow> 'c \<Rightarrow> string \<Rightarrow> string" where
  "encoded_line api e c p =
     fmt_08x (ChecksumIEEE (payload_line api e c p)) @ '' '' @ payload_line api e c p"

text \<open>
  An entry whose command serializes and deserializes cleanly under the command types
  \<open>types\<close>: the command is there and serializes to one line, its name is a token
  registered in \<open>types\<close>, and the decoder, on the payload and the newline, gives the
  command back and leaves nothing in the buffer.
\<close>

definition round_trips :: "'c Command \<Rightarrow> (string \<rightharpoonup> 'c) \<Rightarrow> 'c LogEntry \<Rightarrow> bool" where
  "round_trips api types e =
     (case command e of
        None \<Rightarrow> False
      | Some c \<Rightarrow>
          (case json_Marshal api c of
             Inl err \<Rightarrow> False
           | Inr p \<Rightarrow>
               token (Name api c) \<and> one_line p \<and>
               (case types (Name api c) of
                  None \<Rightarrow> False
                | Some proto \<Rightarrow>
                    json_Decode api (reflect_New api proto) (p @ [newline]) = Inr (c, []))))"

text \<open>
  What can follow the last entry after a crash: a line that was cut before its
  newline, or a whole line, with eight hexadecimal digits and a blank in front, whose
  checksum is not the one of the line.
\<close>

definition bad_checksum_line :: "string \<Rightarrow> bool" where
  "bad_checksum_line g =
     (case ReadString (drop 9 g) of
        None \<Rightarrow> False
      | Some (line, rest) \<Rightarrow>
          9 \<le> length g \<and> (\<forall>c \<in> set (take 8 g). hexval c \<noteq> None) \<and> g ! 8 = CHR '' '' \<and>
          ParseUint (take 8 g) 0 \<noteq> Some (unat (ChecksumIEEE line)))"

definition garbage :: "string \<Rightarrow> bool" where
  "garbage g = (newline \<notin> set g \<or> bad_checksum_line g)"

section \<open>The command types of the examples\<close>

text \<open>
  Go types \<open>struct{}\<close> with a constant \<open>Name()\<close>, as the \<open>noop\<close> command of the
  specification's scenario; a value is its type's name. \<open>json.Marshal\<close> gives \<open>{}\<close>.
  The decoder of \<open>encoding/json\<close> fills its own buffer from the reader, at least 512
  bytes at a time, before it parses: of a buffer that starts with \<open>{}\<close> it takes the
  first 512 bytes and returns at the end of the value, as \<open>Decoder_Decode\<close> does. Other
  input, which no example has, is answered with an error.
\<close>

definition example_api :: "string Command" where
  "example_api =
     \<lparr>Name = (\<lambda>c. c),
      json_Marshal = (\<lambda>c. Inr ''{}''),
      reflect_New = (\<lambda>c. c),
      json_Decode = (\<lambda>c b. if take 2 b = ''{}'' then Inr (c, drop 512 b)
                             else Inl (LibError ''invalid character''))\<rparr>"

text \<open>A log that is open on \<open>log\<close> and holds one entry, of index 1 and term 2.\<close>

definition open_log :: "string Log" where
  "open_log =
     \<lparr>file = Some ''log'', entries = [NewLogEntry 1 2 (Some ''noop'')],
      commitIndex = 1, commandTypes = [''noop'' \<mapsto> ''noop'']\<rparr>"

text \<open>The new log after \<open>AddCommandType\<close> of the command type \<open>noop\<close>.\<close>

definition noop_log :: "string Log" where
  "noop_log = NewLog\<lparr>commandTypes := [''noop'' \<mapsto> ''noop'']\<rparr>"

definition no_faults :: "filesystem" where
  "no_faults =
     \<lparr>files = Map.empty, open_error = (\<lambda>p. None), truncate_error = (\<lambda>p. None),
      openfile_error = (\<lambda>p. None), write_error = (\<lambda>p d. None)\<rparr>"

text \<open>
  A command type with a payload of any length: the Go type \<open>struct{ D string }\<close> with
  the name \<open>blob\<close>; a value is its field \<open>D\<close>. For a string of printable ASCII
  characters without double quote, backslash, less-than, greater-than and ampersand,
  \<open>json.Marshal\<close> gives \<open>{"D":"\<close>, the string and \<open>"}\<close>, and the unmarshalling of
  these bytes gives the string. Strings that need an escape and other JSON texts,
  which no example has, are answered with an error. \<open>reflect.New\<close> gives the zero
  value, the empty string, and the decoder is \<open>Decoder_Decode\<close>.
\<close>

definition plain :: "char \<Rightarrow> bool" where
  "plain c = (32 \<le> (of_char c :: nat) \<and> (of_char c :: nat) < 127 \<and>
              c \<notin> {dquote, backslash, CHR ''<'', CHR ''>'', CHR ''&''})"

definition blob_json :: "string \<Rightarrow> string" where
  "blob_json d = CHR ''{'' # dquote # CHR ''D'' # dquote # CHR '':'' # dquote # d @ [dquote, CHR ''}'']"

definition blob_Marshal :: "string \<Rightarrow> error + string" where
  "blob_Marshal d =
     (if list_all plain d then Inr (blob_json d) else Inl (LibError ''escapes are not modelled''))"

definition blob_Unmarshal :: "string \<Rightarrow> error + string" where
  "blob_Unmarshal v =
     (let d = take (length v - 8) (drop 6 v) in
      if v = blob_json d \<and> list_all plain d then Inr d
      else Inl (LibError ''other values are not modelled''))"

definition blob_api :: "string Command" where
  "blob_api =
     \<lparr>Name = (\<lambda>c. ''blob''),
      json_Marshal = blob_Marshal,
      reflect_New = (\<lambda>c. []),
      json_Decode = (\<lambda>c. Decoder_Decode blob_Unmarshal)\<rparr>"

text \<open>The new log after \<open>AddCommandType\<close> of the command type \<open>blob\<close>.\<close>

definition blob_log :: "string Log" where
  "blob_log = NewLog\<lparr>commandTypes := [''blob'' \<mapsto> []]\<rparr>"

text \<open>
  The entry of index 1 and term 1 with a \<open>blob\<close> of \<open>n\<close> letters \<open>a\<close>: its payload has
  \<open>n + 8\<close> bytes.
\<close>

definition letters :: "nat \<Rightarrow> string" where
  "letters n = replicate n CHR ''a''"

definition blob_entry :: "nat \<Rightarrow> string LogEntry" where
  "blob_entry n = NewLogEntry 1 1 (Some (letters n))"

section \<open>Printing and scanning are inverse\<close>

lemma hexdigit_cases:
  "\<forall>d \<in> set [0..<16]. hexval (hexdigit d) = Some d \<and> lower_hex (hexdigit d)"
  by code_simp

lemma hexval_hexdigit: "d < 16 \<Longrightarrow> hexval (hexdigit d) = Some d"
  using hexdigit_cases by simp

lemma lower_hex_hexdigit: "d < 16 \<Longrightarrow> lower_hex (hexdigit d)"
  using hexdigit_cases by simp

lemma lower_hex_zero: "lower_hex CHR ''0''"
  by (simp add: lower_hex_def)

lemma lower_hex_hexval: "lower_hex c \<Longrightarrow> hexval c \<noteq> None"
  by (auto simp: lower_hex_def hexval_def)

lemma hexval_props:
  "hexval c \<noteq> None \<Longrightarrow> \<not> isSpace c \<and> c \<noteq> newline \<and> hexadecimalDigits c"
proof -
  assume h: "hexval c \<noteq> None"
  have n: "48 \<le> (of_char c :: nat)"
    using h by (auto simp: hexval_def Let_def split: if_splits)
  have "\<not> isSpace c" using n by (auto simp: isSpace_def)
  moreover have "c \<noteq> newline" using n by (auto simp: newline_def)
  ultimately show ?thesis using h by (simp add: hexadecimalDigits_def)
qed

lemma ParseUint_append:
  "ParseUint (xs @ ys) acc = (case ParseUint xs acc of None \<Rightarrow> None | Some a \<Rightarrow> ParseUint ys a)"
  by (induction xs arbitrary: acc) (auto split: option.splits)

lemma ParseUint_fmt_x: "ParseUint (fmt_x n) acc = Some (acc * 16 ^ length (fmt_x n) + n)"
proof (induction n arbitrary: acc rule: fmt_x.induct)
  case (1 n)
  show ?case
  proof (cases "n < 16")
    case True
    then show ?thesis by (simp add: fmt_x.simps [of n] hexval_hexdigit)
  next
    case False
    have "ParseUint (fmt_x n) acc =
          ParseUint [hexdigit (n mod 16)] (acc * 16 ^ length (fmt_x (n div 16)) + n div 16)"
      using False "1.IH" [OF False] by (simp add: fmt_x.simps [of n] ParseUint_append)
    also have "\<dots> = Some ((acc * 16 ^ length (fmt_x (n div 16)) + n div 16) * 16 + n mod 16)"
      by (simp add: hexval_hexdigit)
    also have "\<dots> = Some (acc * 16 ^ length (fmt_x n) + n)"
      using False by (simp add: fmt_x.simps [of n] algebra_simps)
    finally show ?thesis .
  qed
qed

lemma ParseUint_zeros: "ParseUint (replicate k CHR ''0'' @ s) 0 = ParseUint s 0"
  by (induction k) (simp_all add: hexval_def)

lemma ParseUint_pad0: "ParseUint (pad0 w (fmt_x n)) 0 = Some n"
  by (simp add: pad0_def ParseUint_zeros ParseUint_fmt_x)

lemma ParseUint_bound: "ParseUint xs acc = Some v \<Longrightarrow> v < (acc + 1) * 16 ^ length xs"
proof (induction xs arbitrary: acc)
  case Nil
  then show ?case by simp
next
  case (Cons c cs)
  obtain d where d: "hexval c = Some d" and r: "ParseUint cs (acc * 16 + d) = Some v"
    using Cons.prems by (auto split: option.splits)
  have "d < 16" using d by (auto simp: hexval_def Let_def split: if_splits)
  then have "acc * 16 + d + 1 \<le> (acc + 1) * 16" by simp
  then have b: "(acc * 16 + d + 1) * 16 ^ length cs \<le> (acc + 1) * 16 * 16 ^ length cs"
    by (rule mult_le_mono1)
  have a: "v < (acc * 16 + d + 1) * 16 ^ length cs" by (rule Cons.IH [OF r])
  have "v < (acc + 1) * 16 * 16 ^ length cs" by (rule less_le_trans [OF a b])
  then show ?case by (simp only: length_Cons power_Suc mult.assoc)
qed

lemma length_fmt_x: "0 < w \<Longrightarrow> n < 16 ^ w \<Longrightarrow> length (fmt_x n) \<le> w"
proof (induction n arbitrary: w rule: fmt_x.induct)
  case (1 n)
  show ?case
  proof (cases "n < 16")
    case True
    with "1.prems" show ?thesis by (simp add: fmt_x.simps [of n] Suc_leI)
  next
    case False
    obtain v where w: "w = Suc v" using "1.prems"(1) by (cases w) auto
    have "v \<noteq> 0" using False "1.prems"(2) w by (cases v) auto
    moreover have "n div 16 < 16 ^ v"
      using "1.prems"(2) w by (simp add: less_mult_imp_div_less mult.commute)
    ultimately have "length (fmt_x (n div 16)) \<le> v"
      using "1.IH" [OF False, of v] by simp
    then show ?thesis using False w by (simp add: fmt_x.simps [of n])
  qed
qed

lemma set_fmt_x: "c \<in> set (fmt_x n) \<Longrightarrow> lower_hex c"
proof (induction n rule: fmt_x.induct)
  case (1 n)
  then show ?case
    by (cases "n < 16") (auto simp: fmt_x.simps [of n] lower_hex_hexdigit)
qed

lemma set_pad0: "c \<in> set (pad0 w (fmt_x n)) \<Longrightarrow> lower_hex c"
  by (auto simp: pad0_def set_fmt_x lower_hex_zero)

lemma length_pad0: "0 < w \<Longrightarrow> n < 16 ^ w \<Longrightarrow> length (pad0 w (fmt_x n)) = w"
  using length_fmt_x [of w n] by (simp add: pad0_def)

lemma length_fmt_016x: "length (fmt_016x v) = 16"
proof -
  have "unat v < 2 ^ 64" using unsigned_less [of v, where 'a = nat] by simp
  then have "unat v < 16 ^ 16" by simp
  then show ?thesis by (simp add: fmt_016x_def length_pad0)
qed

lemma length_fmt_08x: "length (fmt_08x v) = 8"
proof -
  have "unat v < 2 ^ 32" using unsigned_less [of v, where 'a = nat] by simp
  then have "unat v < 16 ^ 8" by simp
  then show ?thesis by (simp add: fmt_08x_def length_pad0)
qed

lemma isSpace_newline: "isSpace newline"
  by (simp add: isSpace_def newline_def)

lemma isSpace_blank: "isSpace CHR '' ''" "CHR '' '' \<noteq> newline"
  by (simp_all add: isSpace_def newline_def)

lemma SkipSpace_word: "\<not> isSpace c \<Longrightarrow> SkipSpace (c # cs) = Inr (c # cs)"
  using isSpace_newline by auto

lemma takeWhile_take_all:
  "\<forall>c \<in> set xs. P c \<Longrightarrow> takeWhile P (take (length xs) (xs @ r)) = xs"
  by (simp add: takeWhile_eq_all_conv [THEN iffD2])

lemma scanUint_digits:
  assumes len: "length xs = w" and pos: "0 < w"
    and hex: "\<forall>c \<in> set xs. hexval c \<noteq> None"
    and val: "ParseUint xs 0 = Some v" and bound: "v < 2 ^ bits"
  shows "scanUint w bits (xs @ r) = Inr (v, r)"
proof -
  obtain c cs where xs: "xs = c # cs" using len pos by (cases xs) auto
  have "\<not> isSpace c" using hex xs hexval_props [of c] by simp
  then have skip: "SkipSpace (xs @ r) = Inr (xs @ r)"
    unfolding xs using SkipSpace_word [of c "cs @ r"] by simp
  have "\<forall>c \<in> set xs. hexadecimalDigits c" using hex hexval_props by blast
  then have tok: "takeWhile hexadecimalDigits (take w (xs @ r)) = xs"
    using takeWhile_take_all [of xs hexadecimalDigits r] len by simp
  show ?thesis
    unfolding scanUint_def skip using tok val bound xs by (simp add: Let_def)
qed

lemma scanUint_fmt_016x: "scanUint 16 64 (fmt_016x v @ r) = Inr (unat v, r)"
proof -
  have b: "unat v < 2 ^ 64" using unsigned_less [of v, where 'a = nat] by simp
  have l: "length (fmt_016x v) = 16" by (rule length_fmt_016x)
  have h: "\<forall>c \<in> set (fmt_016x v). hexval c \<noteq> None"
    by (simp add: fmt_016x_def set_pad0 lower_hex_hexval)
  have p: "ParseUint (fmt_016x v) 0 = Some (unat v)" by (simp add: fmt_016x_def ParseUint_pad0)
  show ?thesis using scanUint_digits [OF l _ h p b] by simp
qed

lemma scanUint_fmt_08x: "scanUint 8 32 (fmt_08x v @ r) = Inr (unat v, r)"
proof -
  have b: "unat v < 2 ^ 32" using unsigned_less [of v, where 'a = nat] by simp
  have l: "length (fmt_08x v) = 8" by (rule length_fmt_08x)
  have h: "\<forall>c \<in> set (fmt_08x v). hexval c \<noteq> None"
    by (simp add: fmt_08x_def set_pad0 lower_hex_hexval)
  have p: "ParseUint (fmt_08x v) 0 = Some (unat v)" by (simp add: fmt_08x_def ParseUint_pad0)
  show ?thesis using scanUint_digits [OF l _ h p b] by simp
qed

lemma matchSpace_blank: "\<not> isSpace c \<Longrightarrow> matchSpace (CHR '' '' # c # cs) = Inr (c # cs)"
  by (simp add: matchSpace_def isSpace_blank)

lemma scanString_word:
  assumes "w \<noteq> []" and ns: "\<forall>x \<in> set w. \<not> isSpace x"
  shows "scanString (w @ CHR '' '' # r) = Inr (w, CHR '' '' # r)"
proof -
  obtain c cs where nm: "w = c # cs" using assms by (cases w) auto
  then have "\<not> isSpace c" using ns by simp
  then have skip: "SkipSpace (w @ CHR '' '' # r) = Inr (w @ CHR '' '' # r)"
    unfolding nm using SkipSpace_word [of c "cs @ CHR '' '' # r"] by simp
  have tw: "takeWhile (\<lambda>x. \<not> isSpace x) (w @ CHR '' '' # r) = w"
    using ns by (simp add: takeWhile_tail isSpace_blank)
  have dw: "dropWhile (\<lambda>x. \<not> isSpace x) (w @ CHR '' '' # r) = CHR '' '' # r"
    using ns by (simp add: dropWhile_append3 isSpace_blank)
  show ?thesis unfolding scanString_def skip using tw dw nm by simp
qed

lemma fmt_016x_first: "\<exists>c cs. fmt_016x v = c # cs \<and> \<not> isSpace c"
proof -
  obtain c cs where x: "fmt_016x v = c # cs"
    using length_fmt_016x [of v] by (cases "fmt_016x v") auto
  then have "lower_hex c" using set_pad0 [of c 16 "unat v"] by (simp add: fmt_016x_def)
  then show ?thesis using x lower_hex_hexval hexval_props by blast
qed

text \<open>
  The scan of a line that \<open>Encode\<close> has printed: the index, the term, the first word
  \<open>w\<close> of what follows them, and the rest after the blank behind that word.
\<close>

lemma Fscanf_line_words:
  assumes w: "w \<noteq> []" "\<forall>x \<in> set w. \<not> isSpace x" and q: "\<not> isSpace q"
  shows "Fscanf_line (fmt_016x i @ '' '' @ fmt_016x t @ '' '' @ w @ '' '' @ q # qs) =
         Inr (i, t, w, q # qs)"
proof -
  obtain t0 ts where t: "fmt_016x t = t0 # ts" "\<not> isSpace t0"
    using fmt_016x_first by blast
  obtain n ns where n: "w = n # ns" "\<not> isSpace n"
    using w by (cases w) auto
  let ?r3 = "CHR '' '' # q # qs"
  let ?r2 = "CHR '' '' # w @ ?r3"
  let ?r1 = "CHR '' '' # fmt_016x t @ ?r2"
  have s1: "scanUint 16 64 (fmt_016x i @ '' '' @ fmt_016x t @ '' '' @ w @ '' '' @ q # qs) =
            Inr (unat i, ?r1)"
    using scanUint_fmt_016x [of i ?r1] by simp
  have s2: "matchSpace ?r1 = Inr (fmt_016x t @ ?r2)"
    using matchSpace_blank [OF t(2)] t(1) by simp
  have s3: "scanUint 16 64 (fmt_016x t @ ?r2) = Inr (unat t, ?r2)"
    by (rule scanUint_fmt_016x)
  have s4: "matchSpace ?r2 = Inr (w @ ?r3)"
    using matchSpace_blank [OF n(2)] n(1) by simp
  have s5: "scanString (w @ ?r3) = Inr (w, ?r3)"
    by (rule scanString_word [OF w])
  have s6: "matchSpace ?r3 = Inr (q # qs)"
    by (rule matchSpace_blank [OF q])
  show ?thesis
    unfolding Fscanf_line_def s1 by (simp add: s2 s3 s4 s5 s6)
qed

lemma Fscanf_line_payload_line:
  assumes nm: "token (Name api c)" and p: "one_line p"
  shows "Fscanf_line (payload_line api e c p) = Inr (index e, term e, Name api c, p @ [newline])"
proof -
  obtain q qs where q: "p = q # qs" "\<not> isSpace q"
    using p by (cases p) (auto simp: one_line_def)
  have w: "Name api c \<noteq> []" "\<forall>x \<in> set (Name api c). \<not> isSpace x"
    using nm by (simp_all add: token_def)
  show ?thesis
    using Fscanf_line_words [OF w q(2), of "index e" "term e" "qs @ [newline]"]
    by (simp add: payload_line_def q(1))
qed

lemma ReadString_line:
  assumes "newline \<notin> set l"
  shows "ReadString (l @ newline # rest) = Some (l @ [newline], rest)"
proof -
  have a: "\<And>x. x \<in> set l \<Longrightarrow> x \<noteq> newline" using assms by auto
  have t: "takeWhile (\<lambda>x. x \<noteq> newline) (l @ newline # rest) = l"
    using takeWhile_append2 [of l "\<lambda>x. x \<noteq> newline" "newline # rest"] a by simp
  have d: "dropWhile (\<lambda>x. x \<noteq> newline) (l @ newline # rest) = newline # rest"
    using dropWhile_append2 [of l "\<lambda>x. x \<noteq> newline" "newline # rest"] a by simp
  show ?thesis unfolding ReadString_def t d by simp
qed

lemma newline_fmt_016x: "newline \<notin> set (fmt_016x v)"
  using set_pad0 [of newline 16 "unat v"] lower_hex_hexval [of newline] hexval_props [of newline]
  by (auto simp: fmt_016x_def)

section \<open>The decoder of \<open>encoding/json\<close>\<close>

lemma scanEnd_string:
  assumes "\<forall>c \<in> set d. c \<noteq> dquote \<and> c \<noteq> backslash"
  shows "scanEnd k True False (d @ r) = map_option (\<lambda>n. length d + n) (scanEnd k True False r)"
  using assms
proof (induction d)
  case Nil
  show ?case by (cases "scanEnd k True False r") simp_all
next
  case (Cons a d)
  then show ?case by (cases "scanEnd k True False r") simp_all
qed

lemma plain_props: "plain c \<Longrightarrow> c \<noteq> dquote \<and> c \<noteq> backslash \<and> c \<noteq> newline"
  by (auto simp: plain_def newline_def)

lemma length_blob_json: "length (blob_json d) = length d + 8"
  by (simp add: blob_json_def)

lemma scanEnd_blob_json:
  assumes "list_all plain d"
  shows "scanEnd 0 False False (blob_json d @ r) = Some (length d + 8)"
proof -
  have d: "\<forall>c \<in> set d. c \<noteq> dquote \<and> c \<noteq> backslash"
    using assms plain_props by (auto simp: list_all_iff)
  have "scanEnd 1 True False (d @ dquote # CHR ''}'' # r) = Some (length d + 2)"
    unfolding scanEnd_string [OF d] by (simp add: dquote_def backslash_def)
  then show ?thesis
    by (simp add: blob_json_def dquote_def backslash_def)
qed

lemma valueEnd_blob_json:
  "list_all plain d \<Longrightarrow> valueEnd (blob_json d @ r) = Some (Inr (length d + 8))"
  using scanEnd_blob_json [of d r] by (simp add: valueEnd_def blob_json_def)

lemma blob_Unmarshal_blob_json: "list_all plain d \<Longrightarrow> blob_Unmarshal (blob_json d) = Inr d"
  by (simp add: blob_Unmarshal_def Let_def blob_json_def)

text \<open>The first read of the decoder takes up to 512 bytes.\<close>

lemma readValue_first:
  assumes "b \<noteq> []"
  shows "readValue [] 0 b = readValue (take 512 b) (512 - min 512 (length b)) (drop 512 b)"
proof -
  have "take (min 512 (length b)) b = take 512 b" "drop (min 512 (length b)) b = drop 512 b"
    by (simp_all add: min_def)
  then show ?thesis
    using assms by (simp add: readValue.simps [of "[]" 0 b] valueEnd_def minRead_def Let_def)
qed

lemma readValue_found:
  "valueEnd buf = Some (Inr n) \<Longrightarrow> readValue buf room r = Inr (take n buf, r)"
  by (simp add: readValue.simps [of buf room r])

text \<open>
  The decoder of \<open>blob\<close> on a payload of up to 512 bytes and what follows it: the first
  read takes 512 bytes, the value is in them, and the bytes after the first 512 are
  left in the buffer.
\<close>

lemma json_Decode_blob:
  assumes d: "list_all plain d" and len: "length d + 8 \<le> 512"
  shows "json_Decode blob_api c (blob_json d @ r) = Inr (d, drop 512 (blob_json d @ r))"
proof -
  let ?b = "blob_json d @ r"
  have ne: "?b \<noteq> []" by (simp add: blob_json_def)
  have t: "take 512 ?b = blob_json d @ take (504 - length d) r"
    using len by (simp add: length_blob_json)
  have v: "valueEnd (take 512 ?b) = Some (Inr (length d + 8))"
    unfolding t by (rule valueEnd_blob_json [OF d])
  have "take (length d + 8) (take 512 ?b) = blob_json d"
    unfolding t by (simp add: length_blob_json)
  then have "readValue [] 0 ?b = Inr (blob_json d, drop 512 ?b)"
    unfolding readValue_first [OF ne] readValue_found [OF v] by simp
  then show ?thesis
    by (simp add: blob_api_def Decoder_Decode_def blob_Unmarshal_blob_json [OF d])
qed

text \<open>The decoder of the command types \<open>struct{}\<close> is the same decoder.\<close>

lemma example_api_Decoder:
  assumes "take 2 b = ''{}''"
  shows "json_Decode example_api c b =
         Decoder_Decode (\<lambda>v. if v = ''{}'' then Inr c else Inl (LibError ''invalid character'')) b"
proof -
  obtain r where b: "b = CHR ''{'' # CHR ''}'' # r"
    using assms by (cases b; cases "tl b") (auto split: if_splits)
  have ne: "b \<noteq> []" using b by simp
  have t: "take 512 b = CHR ''{'' # CHR ''}'' # take 510 r" unfolding b by simp
  have v: "valueEnd (take 512 b) = Some (Inr 2)"
    unfolding t by (simp add: valueEnd_def dquote_def)
  have "readValue [] 0 b = Inr (''{}'', drop 512 b)"
    unfolding readValue_first [OF ne] readValue_found [OF v] by (simp add: t)
  then show ?thesis using assms by (simp add: example_api_def Decoder_Decode_def)
qed

section \<open>Append\<close>

text \<open>
  C6. Append ordering enforcement: on a log that is open and holds at least one entry,
  \<open>Append\<close> of an entry whose term is less than the last entry's term returns the
  error of the earlier term, and \<open>Append\<close> of an entry whose index equals the last
  entry's index returns an error; in both cases the file system and the log (the
  entries, the commit index, the file) are what they were.
\<close>

theorem Append_ordering_enforced:
  assumes "file l \<noteq> None" and "entries l \<noteq> []"
  shows "(term e < term (last (entries l)) \<longrightarrow>
            Append fs l e =
              ((fs, l), Some (EarlierTerm (term e) (index e) (term (last (entries l)))
                                (index (last (entries l)))))) \<and>
         (index e = index (last (entries l)) \<longrightarrow>
            (\<exists>err. Append fs l e = ((fs, l), Some err)))"
  using assms by (auto simp: Append_def Let_def)

theorem Append_ordering_enforced_witness:
  "Append no_faults open_log (NewLogEntry 5 1 None) =
     ((no_faults, open_log), Some (EarlierTerm 1 5 2 1)) \<and>
   (\<exists>err. Append no_faults open_log (NewLogEntry 1 3 None) = ((no_faults, open_log), Some err))"
proof -
  have a: "file open_log \<noteq> None" "entries open_log \<noteq> []" by (simp_all add: open_log_def)
  show ?thesis
    using Append_ordering_enforced [OF a, of "NewLogEntry 5 1 None" no_faults]
      Append_ordering_enforced [OF a, of "NewLogEntry 1 3 None" no_faults]
    by (simp add: open_log_def NewLogEntry_def)
qed

text \<open>
  C7. Append is memory-only: an \<open>Append\<close> that succeeds leaves the file system as it
  was and changes the log in one place, the entry added at the end of the entries; the
  commit index, the file and the entries before it are unchanged.
\<close>

theorem Append_memory_only:
  "Append fs l e = (st, None) \<Longrightarrow> st = (fs, l\<lparr>entries := entries l @ [e]\<rparr>)"
  by (auto simp: Append_def Let_def split: if_splits option.splits)

theorem Append_memory_only_witness:
  "Append no_faults open_log (NewLogEntry 2 2 None) =
     ((no_faults, open_log\<lparr>entries := entries open_log @ [NewLogEntry 2 2 None]\<rparr>), None)"
proof -
  have "snd (Append no_faults open_log (NewLogEntry 2 2 None)) = None"
    by (simp add: Append_def open_log_def NewLogEntry_def)
  then have "Append no_faults open_log (NewLogEntry 2 2 None) =
      (fst (Append no_faults open_log (NewLogEntry 2 2 None)), None)"
    by (metis prod.collapse)
  from Append_memory_only [OF this] show ?thesis by (metis prod.collapse \<open>snd _ = None\<close>)
qed

section \<open>Close and the state a method needs\<close>

text \<open>
  C10. \<open>Close\<close> sets the file to nil and the entries to the empty sequence and leaves
  the commit index at its value, so that \<open>SetCommitIndex\<close> on the closed log with an
  index below that value is refused as before.
\<close>

theorem Close_keeps_commitIndex:
  "Close fs l = (fs, l\<lparr>file := None, entries := []\<rparr>) \<and>
   commitIndex (snd (Close fs l)) = commitIndex l \<and>
   (j < commitIndex l \<longrightarrow>
      SetCommitIndex api (fst (Close fs l)) (snd (Close fs l)) j =
        (Close fs l, Some (CommitIndexAhead (commitIndex l) j)))"
  by (simp add: Close_def SetCommitIndex_def)

theorem Close_keeps_commitIndex_witness:
  "commitIndex (snd (Close no_faults open_log)) = 1 \<and>
   SetCommitIndex example_api (fst (Close no_faults open_log)) (snd (Close no_faults open_log)) 0 =
     (Close no_faults open_log, Some (CommitIndexAhead 1 0))"
proof -
  have j: "0 < commitIndex open_log" and c: "commitIndex open_log = 1"
    by (simp_all add: open_log_def)
  note t = Close_keeps_commitIndex [of no_faults open_log 0 example_api]
  have a: "commitIndex (snd (Close no_faults open_log)) = commitIndex open_log"
    using t by blast
  have b: "SetCommitIndex example_api (fst (Close no_faults open_log))
             (snd (Close no_faults open_log)) 0 =
           (Close no_faults open_log, Some (CommitIndexAhead (commitIndex open_log) 0))"
    using t j by blast
  show ?thesis using a b c by simp
qed

text \<open>
  C9. On a log that was never opened \<open>Append\<close> is refused with the error that the log
  is not open. \<open>SetCommitIndex\<close> has no such test: on the new log, and on any log that
  was closed, it returns without an error when the index is not below the commit index.
\<close>

theorem SetCommitIndex_on_unopened_log:
  "Append fs NewLog e = ((fs, NewLog), Some LogNotOpen) \<and>
   SetCommitIndex api fs NewLog 5 = ((fs, NewLog), None) \<and>
   SetCommitIndex api (fst (Close fs l)) (snd (Close fs l)) (commitIndex l) = (Close fs l, None)"
  by (simp add: Append_def SetCommitIndex_def NewLog_def Close_def)

section \<open>The commit index over a sequence of calls\<close>

lemma commit_loop_mono:
  "commitIndex l \<le> commitIndex (snd (fst (commit_loop api fs l i es)))"
proof (induction es arbitrary: fs l)
  case Nil
  then show ?case by simp
next
  case (Cons entry es)
  show ?case
  proof (cases "index entry > commitIndex l \<and> index entry \<le> i")
    case False
    then show ?thesis using Cons.IH [of l fs] by auto
  next
    case True
    obtain fs' r where enc: "Encode api entry (Some (File_Write (file l))) fs = (fs', r)"
      by (cases "Encode api entry (Some (File_Write (file l))) fs")
    show ?thesis
    proof (cases r)
      case None
      have "commitIndex l \<le> index entry" using True by (simp add: less_imp_le)
      also have "index entry \<le> commitIndex (snd (fst (commit_loop api fs'
          (l\<lparr>commitIndex := index entry\<rparr>) i es)))"
        using Cons.IH [of "l\<lparr>commitIndex := index entry\<rparr>" fs'] by simp
      finally show ?thesis using True enc None by simp
    next
      case (Some err)
      then show ?thesis using True enc by simp
    qed
  qed
qed

lemma do_call_mono:
  "\<not> is_Call_Open c \<Longrightarrow> commitIndex (snd st) \<le> commitIndex (snd (fst (do_call api st c)))"
proof (cases st)
  case (Pair fs l)
  assume "\<not> is_Call_Open c"
  then show ?thesis
    unfolding Pair
  proof (cases c)
    case (Call_SetCommitIndex i)
    then show "commitIndex (snd (fs, l)) \<le> commitIndex (snd (fst (do_call api (fs, l) c)))"
      using commit_loop_mono [of l api fs i "entries l"] by (simp add: SetCommitIndex_def)
  qed (auto simp: Close_def Append_def Let_def split: option.splits)
qed

lemma run_mono:
  "\<forall>c \<in> set cs. \<not> is_Call_Open c \<Longrightarrow> commitIndex (snd st) \<le> commitIndex (snd (run api st cs))"
proof (induction cs arbitrary: st)
  case Nil
  then show ?case by simp
next
  case (Cons c cs)
  have "commitIndex (snd st) \<le> commitIndex (snd (fst (do_call api st c)))"
    using Cons.prems by (simp add: do_call_mono)
  also have "\<dots> \<le> commitIndex (snd (run api (fst (do_call api st c)) cs))"
    using Cons.IH Cons.prems by simp
  finally show ?case by simp
qed

text \<open>
  C5, as amended. Commit monotonicity: over any sequence of calls of \<open>Close\<close>,
  \<open>Append\<close> and \<open>SetCommitIndex\<close> the commit index does not decrease; and
  \<open>SetCommitIndex j\<close> with \<open>j\<close> below the commit index returns an error and leaves the
  commit index, the file system and the entries as they were.
\<close>

theorem commitIndex_monotone:
  "((\<forall>c \<in> set cs. \<not> is_Call_Open c) \<longrightarrow>
      commitIndex l \<le> commitIndex (snd (run api (fs, l) cs))) \<and>
   (j < commitIndex l \<longrightarrow>
      SetCommitIndex api fs l j = ((fs, l), Some (CommitIndexAhead (commitIndex l) j)))"
  using run_mono [of cs "(fs, l)" api] by (simp add: SetCommitIndex_def)

section \<open>Encode and Decode\<close>

lemma Encode_encoded_line:
  "command e = Some c \<Longrightarrow> json_Marshal api c = Inr p \<Longrightarrow>
   Encode api e (Some wr) s = wr (encoded_line api e c p) s"
  by (simp add: Encode_def encoded_line_def Let_def)

lemma encoding_encoded_line:
  "command e = Some c \<Longrightarrow> json_Marshal api c = Inr p \<Longrightarrow>
   encoding api e = encoded_line api e c p"
  by (simp add: encoding_def Encode_encoded_line buffer_Write_def)

lemma length_encoded_line:
  "length (encoded_line api e c p) = 9 + length (payload_line api e c p)"
  by (simp add: encoded_line_def length_fmt_08x)

text \<open>
  \<open>Decode\<close> on a line with the checksum of its bytes in front: the checksum is read
  and verified, and the result is that of the scan and of what follows it.
\<close>

lemma Decode_checked_line:
  assumes "newline \<notin> set l"
  shows "Decode api types e0
           (Some (fmt_08x (ChecksumIEEE (l @ [newline])) @ CHR '' '' # l @ newline # rest)) =
         (10 + length l,
          case Fscanf_line (l @ [newline]) of
            Inl err \<Rightarrow> Inl (UnableToScan err)
          | Inr (i, t, commandName, b) \<Rightarrow>
              (case NewCommand api types commandName of
                 Inl err \<Rightarrow> Inl (UnableToInstantiate commandName err)
               | Inr target \<Rightarrow>
                   (case json_Decode api target b of
                      Inl err \<Rightarrow> Inl (UnableToDecode err)
                    | Inr (cmd, b') \<Rightarrow>
                        (case b' of
                           c # cs \<Rightarrow> Inl (ExpectedEOL c)
                         | [] \<Rightarrow> Inr (e0\<lparr>index := i, term := t, command := Some cmd\<rparr>, rest)))))"
proof -
  let ?x = "ChecksumIEEE (l @ [newline])"
  have s1: "scanUint 8 32 (fmt_08x ?x @ CHR '' '' # l @ newline # rest) =
            Inr (unat ?x, CHR '' '' # l @ newline # rest)"
    by (rule scanUint_fmt_08x)
  have s2: "ReadString (l @ newline # rest) = Some (l @ [newline], rest)"
    by (rule ReadString_line [OF assms])
  show ?thesis
    unfolding Decode_def option.case s1 sum.case prod.case list.case
    by (simp add: s2 Let_def split: sum.split prod.split list.split)
qed

lemma payload_line_newline:
  assumes "newline \<notin> set (Name api c)" and "newline \<notin> set p"
  shows "\<exists>l. payload_line api e c p = l @ [newline] \<and> newline \<notin> set l \<and>
             encoded_line api e c p =
               fmt_08x (ChecksumIEEE (l @ [newline])) @ CHR '' '' # l @ [newline]"
proof -
  let ?l = "fmt_016x (index e) @ '' '' @ fmt_016x (term e) @ '' '' @ Name api c @ '' '' @ p"
  have a: "newline \<notin> set ?l"
    using assms newline_fmt_016x isSpace_blank(2) by auto
  have b: "payload_line api e c p = ?l @ [newline]"
    by (simp add: payload_line_def)
  have c: "encoded_line api e c p =
             fmt_08x (ChecksumIEEE (?l @ [newline])) @ CHR '' '' # ?l @ [newline]"
    unfolding encoded_line_def b by simp
  show ?thesis using a b c by (intro exI [of _ ?l] conjI)
qed

lemma Decode_encoded_line:
  assumes nm: "token (Name api c)" and p: "one_line p"
    and reg: "types (Name api c) = Some proto"
    and dec: "json_Decode api (reflect_New api proto) (p @ [newline]) = Inr (c', [])"
  shows "Decode api types e0 (Some (encoded_line api e c p @ rest)) =
         (length (encoded_line api e c p),
          Inr (e0\<lparr>index := index e, term := term e, command := Some c'\<rparr>, rest))"
proof -
  have "newline \<notin> set (Name api c)" using nm isSpace_newline by (auto simp: token_def)
  moreover have "newline \<notin> set p" using p by (simp add: one_line_def)
  ultimately obtain l where l: "payload_line api e c p = l @ [newline]" "newline \<notin> set l"
    "encoded_line api e c p = fmt_08x (ChecksumIEEE (l @ [newline])) @ CHR '' '' # l @ [newline]"
    using payload_line_newline [of api c p e] by blast
  have s3: "Fscanf_line (l @ [newline]) = Inr (index e, term e, Name api c, p @ [newline])"
    using Fscanf_line_payload_line [OF nm p, of e] l(1) by simp
  have s4: "NewCommand api types (Name api c) = Inr (reflect_New api proto)"
    by (simp add: NewCommand_def reg)
  have len: "length (encoded_line api e c p) = 10 + length l"
    using l(1) by (simp add: length_encoded_line)
  show ?thesis
    using Decode_checked_line [OF l(2), of api types e0 rest]
    by (simp add: l(3) s3 s4 dec length_fmt_08x)
qed

lemma Decode_round_trips:
  assumes "round_trips api types e"
  shows "Decode api types (NewLogEntry 0 0 None) (Some (encoding api e @ rest)) =
         (length (encoding api e), Inr (e, rest))"
proof -
  obtain c p proto where h: "command e = Some c" "json_Marshal api c = Inr p"
    "token (Name api c)" "one_line p" "types (Name api c) = Some proto"
    "json_Decode api (reflect_New api proto) (p @ [newline]) = Inr (c, [])"
    using assms by (auto simp: round_trips_def split: option.splits sum.splits)
  have "(NewLogEntry 0 0 None)\<lparr>index := index e, term := term e, command := Some c\<rparr> = e"
    using h(1) by (simp add: NewLogEntry_def)
  then show ?thesis
    using Decode_encoded_line [of api c p types proto c "NewLogEntry 0 0 None" e rest] h
    by (simp add: encoding_encoded_line)
qed

text \<open>
  C3. The format on disk: for an entry whose command serializes, \<open>Encode\<close> hands the
  writer, in one call of \<open>Write\<close>, exactly these bytes: eight lower-case hexadecimal
  digits, a blank, sixteen lower-case hexadecimal digits whose value is the index, a
  blank, sixteen whose value is the term, a blank, the name of the command, a blank,
  the serialized command and a newline; the value of the first eight digits is the
  CRC-32/IEEE of the bytes from the first digit of the index through the newline.
\<close>

theorem Encode_format:
  assumes "command e = Some c" and "json_Marshal api c = Inr p"
  shows "\<exists>cs ix tm.
           Encode api e (Some wr) s =
             wr (cs @ '' '' @ ix @ '' '' @ tm @ '' '' @ Name api c @ '' '' @ p @ [newline]) s \<and>
           length cs = 8 \<and> (\<forall>x \<in> set cs. lower_hex x) \<and>
           ParseUint cs 0 =
             Some (unat (ChecksumIEEE
               (ix @ '' '' @ tm @ '' '' @ Name api c @ '' '' @ p @ [newline]))) \<and>
           length ix = 16 \<and> (\<forall>x \<in> set ix. lower_hex x) \<and>
           ParseUint ix 0 = Some (unat (index e)) \<and>
           length tm = 16 \<and> (\<forall>x \<in> set tm. lower_hex x) \<and>
           ParseUint tm 0 = Some (unat (term e))"
proof -
  let ?ix = "fmt_016x (index e)" and ?tm = "fmt_016x (term e)"
  let ?b = "?ix @ '' '' @ ?tm @ '' '' @ Name api c @ '' '' @ p @ [newline]"
  let ?cs = "fmt_08x (ChecksumIEEE ?b)"
  have w: "Encode api e (Some wr) s = wr (?cs @ '' '' @ ?b) s"
    using assms by (simp add: Encode_def payload_line_def Let_def)
  have c1: "length ?cs = 8" by (rule length_fmt_08x)
  have c2: "\<forall>x \<in> set ?cs. lower_hex x" by (simp add: fmt_08x_def set_pad0)
  have c3: "ParseUint ?cs 0 = Some (unat (ChecksumIEEE ?b))"
    by (simp add: fmt_08x_def ParseUint_pad0)
  have d1: "length (fmt_016x v) = 16" for v by (rule length_fmt_016x)
  have d2: "\<forall>x \<in> set (fmt_016x v). lower_hex x" for v by (simp add: fmt_016x_def set_pad0)
  have d3: "ParseUint (fmt_016x v) 0 = Some (unat v)" for v
    by (simp add: fmt_016x_def ParseUint_pad0)
  show ?thesis
    by (intro exI [of _ ?cs] exI [of _ ?ix] exI [of _ ?tm] conjI w c1 c2 c3 d1 d2 d3)
qed

theorem Encode_format_witness:
  "\<exists>cs ix tm.
     Encode example_api (NewLogEntry 1 2 (Some ''noop'')) (Some buffer_Write) [] =
       (cs @ '' '' @ ix @ '' '' @ tm @ '' noop {}'' @ [newline], None) \<and>
     length cs = 8 \<and> (\<forall>x \<in> set cs. lower_hex x) \<and>
     ParseUint cs 0 = Some (unat (ChecksumIEEE (ix @ '' '' @ tm @ '' noop {}'' @ [newline]))) \<and>
     length ix = 16 \<and> (\<forall>x \<in> set ix. lower_hex x) \<and> ParseUint ix 0 = Some 1 \<and>
     length tm = 16 \<and> (\<forall>x \<in> set tm. lower_hex x) \<and> ParseUint tm 0 = Some 2"
  using Encode_format [of "NewLogEntry 1 2 (Some ''noop'')" "''noop''" example_api "''{}''"
      buffer_Write "[]"]
  by (simp add: NewLogEntry_def example_api_def buffer_Write_def)

text \<open>
  The round trip where the decoder leaves nothing of the line in the buffer: for an
  entry whose command serializes to one line, whose name is registered and is a token
  (ASCII, not empty, no white space), and whose payload and newline the decoder takes
  whole, \<open>Decode\<close> on the bytes \<open>Encode\<close> has written succeeds, gives the index, the
  term and the command of the entry, leaves the reader at the first byte after them,
  and returns as \<open>pos\<close> the number of bytes \<open>Encode\<close> wrote.
\<close>

lemma Decode_Encode_round_trip:
  assumes "command e = Some c" and "json_Marshal api c = Inr p" and "one_line p"
    and "token (Name api c)" and "types (Name api c) = Some proto"
    and "json_Decode api (reflect_New api proto) (p @ [newline]) = Inr (c, [])"
  shows "Encode api e (Some buffer_Write) buf = (buf @ encoding api e, None) \<and>
         Decode api types e0 (Some (encoding api e @ rest)) =
           (length (encoding api e),
            Inr (e0\<lparr>index := index e, term := term e, command := Some c\<rparr>, rest))"
  using assms Decode_encoded_line [of api c p types proto c e0 e rest]
  by (simp add: encoding_encoded_line Encode_encoded_line buffer_Write_def)


lemma Decode_Encode_round_trip_noop:
  "Encode example_api (NewLogEntry 1 2 (Some ''noop'')) (Some buffer_Write) [] =
     (encoding example_api (NewLogEntry 1 2 (Some ''noop'')), None) \<and>
   Decode example_api [''noop'' \<mapsto> ''noop''] (NewLogEntry 0 0 None)
     (Some (encoding example_api (NewLogEntry 1 2 (Some ''noop'')) @ ''rest'')) =
     (length (encoding example_api (NewLogEntry 1 2 (Some ''noop''))),
      Inr (NewLogEntry 1 2 (Some ''noop''), ''rest''))"
  using Decode_Encode_round_trip [of "NewLogEntry 1 2 (Some ''noop'')" "''noop''" example_api
      "''{}''" "[''noop'' \<mapsto> ''noop'']" "''noop''" "[]" "NewLogEntry 0 0 None" "''rest''"]
  by (simp add: NewLogEntry_def example_api_def one_line_def token_def isSpace_def newline_def)

subsection \<open>The test at the end of \<open>Decode\<close>\<close>

text \<open>
  When the checksum verifies and the command deserializes, \<open>Decode\<close> looks at what the
  decoder has left in the buffer of the line: a byte there is reported, and \<open>Decode\<close>
  succeeds exactly when the decoder has left none. The buffer holds the newline of
  the line after the payload, so that \<open>Decode\<close> succeeds when the decoder has read on
  to the end of the line.
\<close>

lemma Decode_end_of_line:
  assumes "newline \<notin> set l"
    and "Fscanf_line (l @ [newline]) = Inr (i, t, commandName, b)"
    and "NewCommand api types commandName = Inr target"
    and "json_Decode api target b = Inr (cmd, b')"
  shows "snd (Decode api types e0
           (Some (fmt_08x (ChecksumIEEE (l @ [newline])) @ CHR '' '' # l @ newline # rest))) =
         (case b' of
            [] \<Rightarrow> Inr (e0\<lparr>index := i, term := t, command := Some cmd\<rparr>, rest)
          | c # cs \<Rightarrow> Inl (ExpectedEOL c))"
  using Decode_checked_line [OF assms(1), of api types e0 rest] assms(2-4)
  by (simp split: list.splits)

subsection \<open>Lines that are not what the claims expect\<close>

lemma fmt_016x_1: "fmt_016x 1 = ''0000000000000001''"
proof -
  have "replicate 15 CHR ''0'' = ''000000000000000''" by code_simp
  then show ?thesis by (simp add: fmt_016x_def pad0_def fmt_x.simps hexdigit_def)
qed

lemma Decode_literal_line:
  assumes l: "l = fmt_016x i @ '' '' @ fmt_016x t @ '' '' @ w @ '' '' @ q # qs"
    and w: "w \<noteq> []" "\<forall>x \<in> set w. \<not> isSpace x" and q: "\<not> isSpace q"
    and nl: "newline \<notin> set (q # qs)"
  shows "Decode api types e0
           (Some (fmt_08x (ChecksumIEEE (l @ [newline])) @ CHR '' '' # l @ newline # rest)) =
         (10 + length l,
          case NewCommand api types w of
            Inl err \<Rightarrow> Inl (UnableToInstantiate w err)
          | Inr target \<Rightarrow>
              (case json_Decode api target (q # qs @ [newline]) of
                 Inl err \<Rightarrow> Inl (UnableToDecode err)
               | Inr (cmd, b') \<Rightarrow>
                   (case b' of
                      c # cs \<Rightarrow> Inl (ExpectedEOL c)
                    | [] \<Rightarrow> Inr (e0\<lparr>index := i, term := t, command := Some cmd\<rparr>, rest))))"
proof -
  have "newline \<notin> set w" using w(2) isSpace_newline by auto
  then have n: "newline \<notin> set l"
    unfolding l using nl newline_fmt_016x isSpace_blank(2) by auto
  have s: "Fscanf_line (l @ [newline]) = Inr (i, t, w, q # qs @ [newline])"
    unfolding l using Fscanf_line_words [OF w q, of i t "qs @ [newline]"] by simp
  show ?thesis
    using Decode_checked_line [OF n, of api types e0 rest] by (simp add: s)
qed

text \<open>
  A name with a blank in it does not come back. The command type \<open>a b\<close> is
  registered, serializes and deserializes cleanly; \<open>Encode\<close> writes the entry, and
  \<open>Decode\<close> reads the name \<open>a\<close> off the line and fails to instantiate it.
\<close>

lemma round_trip_needs_token:
  "command (NewLogEntry 1 1 (Some ''a b'')) = Some ''a b'' \<and>
   [''a b'' \<mapsto> ''a b''] (Name example_api ''a b'') = Some ''a b'' \<and>
   json_Marshal example_api ''a b'' = Inr ''{}'' \<and>
   json_Decode example_api (reflect_New example_api ''a b'') (''{}'' @ [newline]) =
     Inr (''a b'', []) \<and>
   Encode example_api (NewLogEntry 1 1 (Some ''a b'')) (Some buffer_Write) [] =
     (encoding example_api (NewLogEntry 1 1 (Some ''a b'')), None) \<and>
   snd (Decode example_api [''a b'' \<mapsto> ''a b''] (NewLogEntry 0 0 None)
          (Some (encoding example_api (NewLogEntry 1 1 (Some ''a b''))))) =
     Inl (UnableToInstantiate ''a'' (UnregisteredCommandType ''a''))"
proof -
  let ?e = "NewLogEntry 1 1 (Some ''a b'')"
  let ?l = "fmt_016x 1 @ '' '' @ fmt_016x 1 @ '' '' @ ''a'' @ '' '' @ CHR ''b'' # '' {}''"
  have c: "command ?e = Some ''a b''" "json_Marshal example_api ''a b'' = Inr ''{}''"
    by (simp_all add: NewLogEntry_def example_api_def)
  have enc: "encoding example_api ?e =
             fmt_08x (ChecksumIEEE (?l @ [newline])) @ CHR '' '' # ?l @ newline # []"
    unfolding encoding_encoded_line [OF c]
    by (simp add: encoded_line_def payload_line_def NewLogEntry_def example_api_def)
  have d: "Decode example_api [''a b'' \<mapsto> ''a b''] (NewLogEntry 0 0 None)
             (Some (encoding example_api ?e)) =
           (10 + length ?l, Inl (UnableToInstantiate ''a'' (UnregisteredCommandType ''a'')))"
    unfolding enc
    by (subst Decode_literal_line [where i = 1 and t = 1 and w = "''a''" and q = "CHR ''b''"
          and qs = "'' {}''"])
       (simp_all add: isSpace_def newline_def NewCommand_def)
  have d': "snd (Decode example_api [''a b'' \<mapsto> ''a b''] (NewLogEntry 0 0 None)
                  (Some (encoding example_api ?e))) =
            Inl (UnableToInstantiate ''a'' (UnregisteredCommandType ''a''))"
    by (simp add: d)
  have e: "Encode example_api ?e (Some buffer_Write) [] = (encoding example_api ?e, None)"
    by (simp add: Encode_encoded_line [OF c] encoding_encoded_line [OF c] buffer_Write_def)
  have r: "[''a b'' \<mapsto> ''a b''] (Name example_api ''a b'') = Some ''a b''"
    by (simp add: example_api_def)
  have j: "json_Decode example_api (reflect_New example_api ''a b'') (''{}'' @ [newline]) =
           Inr (''a b'', [])"
    by (simp add: example_api_def)
  show ?thesis by (intro conjI) (fact c(1) r c(2) j e d')+
qed

text \<open>
  C8. A line whose checksum verifies and whose command deserializes, with the byte
  \<open>x\<close> between the payload \<open>{}\<close> and the newline. The decoder of \<open>encoding/json\<close> has
  taken the whole buffer, so the \<open>ReadByte\<close> that follows finds its end: \<open>Decode\<close>
  returns the entry and no error, where the claim has it report the byte.
\<close>

theorem Decode_accepts_trailing_byte:
  "Decode example_api [''noop'' \<mapsto> ''noop''] (NewLogEntry 0 0 None)
     (Some (fmt_08x (ChecksumIEEE (''0000000000000001 0000000000000001 noop {}x'' @ [newline])) @
            '' 0000000000000001 0000000000000001 noop {}x'' @ [newline])) =
   (52, Inr (NewLogEntry 1 1 (Some ''noop''), []))"
proof -
  let ?l = "fmt_016x 1 @ '' '' @ fmt_016x 1 @ '' '' @ ''noop'' @ '' '' @ CHR ''{'' # ''}x''"
  have l: "''0000000000000001 0000000000000001 noop {}x'' = ?l"
    by (simp add: fmt_016x_1)
  note t = Decode_literal_line [of ?l 1 1 "''noop''" "CHR ''{''" "''}x''" example_api
      "[''noop'' \<mapsto> ''noop'']" "NewLogEntry 0 0 None" "[]"]
  have j: "json_Decode example_api ''noop'' (CHR ''{'' # ''}x'' @ [newline]) =
           Inr (''noop'', [])"
    by (simp add: example_api_def)
  have d: "Decode example_api [''noop'' \<mapsto> ''noop''] (NewLogEntry 0 0 None)
             (Some (fmt_08x (ChecksumIEEE (?l @ [newline])) @ CHR '' '' # ?l @ newline # [])) =
           (10 + length ?l, Inr (NewLogEntry 1 1 (Some ''noop''), []))"
    using t j by (simp add: isSpace_def newline_def NewCommand_def example_api_def NewLogEntry_def)
  have n: "10 + length ?l = 52" by (simp add: length_fmt_016x)
  show ?thesis using d unfolding n l [symmetric] by simp
qed

section \<open>Open\<close>

lemma files_put_file [simp]:
  "files (put_file fs p d) q = (if q = p then Some d else files fs q)"
  by (simp add: put_file_def)

lemma errors_put_file [simp]:
  "open_error (put_file fs p d) = open_error fs"
  "truncate_error (put_file fs p d) = truncate_error fs"
  "openfile_error (put_file fs p d) = openfile_error fs"
  "write_error (put_file fs p d) = write_error fs"
  by (simp_all add: put_file_def)

lemma put_file_twice [simp]: "put_file (put_file fs p d) p d' = put_file fs p d'"
  by (simp add: put_file_def)

lemma put_file_same: "files fs p = Some d \<Longrightarrow> put_file fs p d = fs"
  by (simp add: put_file_def fun_upd_idem)

lemma encoding_not_empty: "round_trips api types e \<Longrightarrow> encoding api e \<noteq> []"
proof -
  assume "round_trips api types e"
  then obtain c p where "command e = Some c" "json_Marshal api c = Inr p"
    by (auto simp: round_trips_def split: option.splits sum.splits)
  then have "length (encoding api e) = 9 + length (payload_line api e c p)"
    by (simp add: encoding_encoded_line length_encoded_line)
  then show ?thesis by auto
qed

lemma read_entries_step:
  assumes "Decode api (commandTypes l) (NewLogEntry 0 0 None) (Some r) = (k, Inr (e, r'))"
    and "r \<noteq> []"
  shows "read_entries api l r n =
         read_entries api (l\<lparr>commitIndex := index e, entries := entries l @ [e]\<rparr>) r' (n + k)"
  using assms by (simp add: read_entries.simps [of api l r n])

lemma read_entries_stop:
  assumes "snd (Decode api (commandTypes l) (NewLogEntry 0 0 None) (Some r)) = Inl err"
    and "r \<noteq> []"
  shows "read_entries api l r n = (l, n, Some err)"
  using assms
  by (cases "Decode api (commandTypes l) (NewLogEntry 0 0 None) (Some r)")
     (simp add: read_entries.simps [of api l r n])

lemma read_entries_encodings:
  assumes "\<forall>e \<in> set es. round_trips api (commandTypes l) e"
  shows "read_entries api l (concat (map (encoding api) es) @ g) n =
         read_entries api
           (l\<lparr>commitIndex := (if es = [] then commitIndex l else index (last es)),
              entries := entries l @ es\<rparr>)
           g (n + length (concat (map (encoding api) es)))"
  using assms
proof (induction es arbitrary: l n)
  case Nil
  then show ?case by simp
next
  case (Cons e es)
  let ?l1 = "l\<lparr>commitIndex := index e, entries := entries l @ [e]\<rparr>"
  let ?rest = "concat (map (encoding api) es) @ g"
  have rt: "round_trips api (commandTypes l) e" using Cons.prems by simp
  have ne: "encoding api e @ ?rest \<noteq> []" using encoding_not_empty [OF rt] by simp
  have "read_entries api l (concat (map (encoding api) (e # es)) @ g) n =
        read_entries api l (encoding api e @ ?rest) n"
    by simp
  also have "\<dots> = read_entries api ?l1 ?rest (n + length (encoding api e))"
    by (rule read_entries_step [OF Decode_round_trips [OF rt] ne])
  also have "\<dots> = read_entries api
        (?l1\<lparr>commitIndex := (if es = [] then commitIndex ?l1 else index (last es)),
             entries := entries ?l1 @ es\<rparr>)
        g (n + length (encoding api e) + length (concat (map (encoding api) es)))"
    using Cons.prems by (intro Cons.IH) simp
  finally show ?case by (simp add: add.assoc)
qed

lemma SkipSpace_set: "SkipSpace s = Inr s1 \<Longrightarrow> set s1 \<subseteq> set s"
  by (induction s) (auto split: if_splits)

lemma scanUint_set: "scanUint w bits s = Inr (v, s1) \<Longrightarrow> set s1 \<subseteq> set s"
proof -
  assume "scanUint w bits s = Inr (v, s1)"
  then obtain x k where "SkipSpace s = Inr x" "s1 = drop k x"
    unfolding scanUint_def
    by (auto simp: Let_def split: sum.splits if_splits option.splits)
  then show ?thesis using SkipSpace_set [of s x] set_drop_subset [of k x] by blast
qed

lemma Decode_incomplete_line:
  assumes "newline \<notin> set g"
  shows "\<exists>err. snd (Decode api types e0 (Some g)) = Inl err"
proof (cases "scanUint 8 32 g")
  case (Inl err)
  then show ?thesis by (simp add: Decode_def)
next
  case (Inr r)
  obtain v s1 where r: "r = (v, s1)" by (cases r)
  have sub: "set s1 \<subseteq> set g" using scanUint_set Inr r by blast
  show ?thesis
  proof (cases s1)
    case Nil
    then show ?thesis using Inr r by (simp add: Decode_def)
  next
    case (Cons c s2)
    then have "newline \<notin> set s2" using sub assms by auto
    then have "ReadString s2 = None" by (simp add: ReadString_def)
    then show ?thesis using Inr r Cons by (simp add: Decode_def)
  qed
qed

lemma ParseUint_hex: "\<forall>c \<in> set xs. hexval c \<noteq> None \<Longrightarrow> \<exists>v. ParseUint xs acc = Some v"
  by (induction xs arbitrary: acc) auto

lemma Decode_bad_checksum_line:
  assumes "bad_checksum_line g"
  shows "\<exists>err. snd (Decode api types e0 (Some g)) = Inl err"
proof -
  obtain line rest where rs: "ReadString (drop 9 g) = Some (line, rest)"
    and len: "9 \<le> length g" and hex: "\<forall>c \<in> set (take 8 g). hexval c \<noteq> None"
    and sp: "g ! 8 = CHR '' ''"
    and bad: "ParseUint (take 8 g) 0 \<noteq> Some (unat (ChecksumIEEE line))"
    using assms by (auto simp: bad_checksum_line_def split: option.splits)
  obtain v where v: "ParseUint (take 8 g) 0 = Some v" using ParseUint_hex [OF hex] by blast
  have l8: "length (take 8 g) = 8" using len by simp
  have "v < (0 + 1) * 16 ^ length (take 8 g)" by (rule ParseUint_bound [OF v])
  then have vb: "v < 2 ^ 32" unfolding l8 by simp
  have "drop 8 g = g ! 8 # drop 9 g"
    using len Cons_nth_drop_Suc [of 8 g] by simp
  then have g: "g = take 8 g @ CHR '' '' # drop 9 g"
    using sp append_take_drop_id [of 8 g] by simp
  have s1: "scanUint 8 32 g = Inr (v, CHR '' '' # drop 9 g)"
    using scanUint_digits [OF l8 _ hex v vb, of "CHR '' '' # drop 9 g"] g by simp
  have "unat (word_of_nat v :: 32 word) = v"
    using vb by (simp add: unat_of_nat)
  then have ne: "(word_of_nat v :: 32 word) \<noteq> ChecksumIEEE line"
    using bad v by auto
  show ?thesis
    unfolding Decode_def by (simp add: s1 rs ne Let_def)
qed

lemma read_entries_garbage:
  assumes "garbage g"
  shows "g = [] \<and> read_entries api l g n = (l, n, None) \<or>
         g \<noteq> [] \<and> (\<exists>err. read_entries api l g n = (l, n, Some err))"
proof (cases "g = []")
  case True
  then show ?thesis by (simp add: read_entries.simps [of api l "[]" n])
next
  case False
  obtain err where "snd (Decode api (commandTypes l) (NewLogEntry 0 0 None) (Some g)) = Inl err"
    using assms Decode_incomplete_line Decode_bad_checksum_line
    unfolding garbage_def by blast
  then have "read_entries api l g n = (l, n, Some err)"
    using False by (rule read_entries_stop)
  then show ?thesis using False by blast
qed


lemma Open_replay_crash_tail:
  assumes f: "files fs path = Some (concat (map (encoding api) es) @ g)"
    and valid: "\<forall>e \<in> set es. round_trips api (commandTypes l) e"
    and g: "garbage g"
    and io: "open_error fs path = None"
  shows "Open_replay api fs l path =
         (let l1 = l\<lparr>commitIndex := (if es = [] then commitIndex l else index (last es)),
                      entries := entries l @ es\<rparr>
          in case (if g = [] then None else truncate_error fs path) of
               Some err \<Rightarrow> Inl ((fs, l1), UnableToRecover err)
             | None \<Rightarrow>
                 Inr (put_file fs path (concat (map (encoding api) es)), l1))"
proof -
  let ?l1 = "l\<lparr>commitIndex := (if es = [] then commitIndex l else index (last es)),
                entries := entries l @ es\<rparr>"
  let ?n = "length (concat (map (encoding api) es))"
  have r: "read_entries api l (concat (map (encoding api) es) @ g) 0 = read_entries api ?l1 g ?n"
    using read_entries_encodings [OF valid, of g 0] by simp
  show ?thesis
  proof (cases "g = []")
    case True
    have re: "read_entries api l (concat (map (encoding api) es) @ g) 0 = (?l1, ?n, None)"
      using read_entries_garbage [OF g, of api ?l1 ?n] True r by simp
    have same: "put_file fs path (concat (map (encoding api) es)) = fs"
      using f True by (simp add: put_file_same)
    show ?thesis
      unfolding Open_replay_def f option.case io re prod.case same Let_def
      using True by simp
  next
    case False
    then obtain err where
      re: "read_entries api l (concat (map (encoding api) es) @ g) 0 = (?l1, ?n, Some err)"
      using read_entries_garbage [OF g, of api ?l1 ?n] r by auto
    have t: "os_Truncate fs path ?n =
             (case truncate_error fs path of
                Some err \<Rightarrow> Inl err
              | None \<Rightarrow>
                  Inr (put_file fs path (concat (map (encoding api) es))))"
      unfolding os_Truncate_def f by (simp split: option.splits)
    show ?thesis
      unfolding Open_replay_def f option.case io re prod.case t Let_def
      using False by (simp split: option.splits)
  qed
qed

lemma Open_tail:
  assumes f: "files fs path = Some (concat (map (encoding api) es) @ g)"
    and valid: "\<forall>e \<in> set es. round_trips api (commandTypes l) e"
    and g: "garbage g"
    and io: "open_error fs path = None" "openfile_error fs path = None"
  shows "Open api fs l path =
         (let l1 = l\<lparr>commitIndex := (if es = [] then commitIndex l else index (last es)),
                      entries := entries l @ es\<rparr>
          in case (if g = [] then None else truncate_error fs path) of
               Some err \<Rightarrow> ((fs, l1), Some (UnableToRecover err))
             | None \<Rightarrow>
                 ((put_file fs path (concat (map (encoding api) es)), l1\<lparr>file := Some path\<rparr>),
                  None))"
  using Open_replay_crash_tail [OF f valid g io(1)] io(2)
  by (auto simp: Open_def Let_def os_OpenFile_def split: option.splits if_splits)


section \<open>SetCommitIndex\<close>

lemma Encode_File_success:
  assumes "Encode api e (Some (File_Write (Some path))) fs = (fs', None)"
  shows "fs' = file_append fs path (encoding api e)"
proof -
  obtain c p where c: "command e = Some c" "json_Marshal api c = Inr p"
    using assms by (auto simp: Encode_def split: option.splits sum.splits)
  have "File_Write (Some path) (encoded_line api e c p) fs = (fs', None)"
    using assms by (simp add: Encode_encoded_line [OF c])
  then have "fs' = file_append fs path (encoded_line api e c p)"
    by (auto simp: File_Write_def split: option.splits)
  then show ?thesis by (simp add: encoding_encoded_line [OF c])
qed

lemma sorted_wrt_last:
  "sorted_wrt P xs \<Longrightarrow> x \<in> set xs \<Longrightarrow> x = last xs \<or> P x (last xs)"
  by (induction xs) auto

text \<open>
  The loop on entries whose indices grow: it writes the entries with an index above
  the commit index and up to \<open>i\<close>, in their order, and leaves the commit index at the
  last of them.
\<close>

lemma commit_loop_sorted:
  assumes "sorted_wrt (<) (map index es)" and "file l = Some path"
    and "files fs path = Some old"
    and "commit_loop api fs l i es = ((fs', l'), None)"
  shows "fs' = put_file fs path (old @ concat (map (encoding api)
                  (filter (\<lambda>e. commitIndex l < index e \<and> index e \<le> i) es))) \<and>
         l' = l\<lparr>commitIndex :=
                  (if filter (\<lambda>e. commitIndex l < index e \<and> index e \<le> i) es = []
                   then commitIndex l
                   else index (last (filter (\<lambda>e. commitIndex l < index e \<and> index e \<le> i) es)))\<rparr>"
  using assms
proof (induction es arbitrary: fs l old)
  case Nil
  then show ?case by (simp add: put_file_same)
next
  case (Cons e es)
  have srt: "sorted_wrt (<) (map index es)" and gt: "\<forall>x \<in> set es. index e < index x"
    using Cons.prems(1) by simp_all
  show ?case
  proof (cases "index e > commitIndex l \<and> index e \<le> i")
    case False
    then have "commit_loop api fs l i es = ((fs', l'), None)"
      using Cons.prems(4) by auto
    from Cons.IH [OF srt Cons.prems(2) Cons.prems(3) this] False
    show ?thesis by auto
  next
    case True
    obtain fs1 r where enc: "Encode api e (Some (File_Write (file l))) fs = (fs1, r)"
      by (cases "Encode api e (Some (File_Write (file l))) fs")
    have r: "r = None" using Cons.prems(4) True enc by (cases r) auto
    let ?l1 = "l\<lparr>commitIndex := index e\<rparr>"
    have loop: "commit_loop api fs1 ?l1 i es = ((fs', l'), None)"
      using Cons.prems(4) True enc r by simp
    have fs1: "fs1 = put_file fs path (old @ encoding api e)"
      using Encode_File_success [of api e path fs fs1] enc r Cons.prems(2) Cons.prems(3)
      by (simp add: file_append_def)
    have f1: "files fs1 path = Some (old @ encoding api e)" by (simp add: fs1)
    have same: "filter (\<lambda>x. index e < index x \<and> index x \<le> i) es =
                filter (\<lambda>x. commitIndex l < index x \<and> index x \<le> i) es"
      using gt True by (intro filter_cong) auto
    let ?w = "filter (\<lambda>x. commitIndex l < index x \<and> index x \<le> i) es"
    have ih: "fs' = put_file fs1 path ((old @ encoding api e) @ concat (map (encoding api) ?w)) \<and>
              l' = ?l1\<lparr>commitIndex :=
                        (if ?w = [] then commitIndex ?l1 else index (last ?w))\<rparr>"
      using Cons.IH [OF srt _ f1 loop] Cons.prems(2) same by simp
    have a: "put_file fs1 path ((old @ encoding api e) @ concat (map (encoding api) ?w)) =
             put_file fs path (old @ encoding api e @ concat (map (encoding api) ?w))"
      unfolding fs1 by simp
    have b: "?l1\<lparr>commitIndex := (if ?w = [] then commitIndex ?l1 else index (last ?w))\<rparr> =
             l\<lparr>commitIndex := (if ?w = [] then index e else index (last ?w))\<rparr>"
      by simp
    show ?thesis using ih True unfolding a b by simp
  qed
qed


section \<open>Commit, close and open again\<close>

lemma Append_success:
  "Append fs l e = (st, None) \<Longrightarrow> st = (fs, l\<lparr>entries := entries l @ [e]\<rparr>)"
  by (auto simp: Append_def Let_def split: if_splits option.splits)

lemma Append_all_success:
  "Append_all fs l es = (st, None) \<Longrightarrow> st = (fs, l\<lparr>entries := entries l @ es\<rparr>)"
proof (induction es arbitrary: l)
  case Nil
  then show ?case by simp
next
  case (Cons e es)
  obtain st1 r where a: "Append fs l e = (st1, r)" by (cases "Append fs l e")
  have r: "r = None" using Cons.prems a by (cases r) (auto split: prod.splits)
  have st1: "st1 = (fs, l\<lparr>entries := entries l @ [e]\<rparr>)"
    using Append_success a r by blast
  have "Append_all fs (l\<lparr>entries := entries l @ [e]\<rparr>) es = (st, None)"
    using Cons.prems a r st1 by simp
  from Cons.IH [OF this] show ?case by simp
qed

lemma indices_sorted:
  assumes "map (\<lambda>e. unat (index e)) es = [1..<Suc n]"
  shows "sorted_wrt (<) (map index es)"
proof -
  have "sorted_wrt (<) (map (\<lambda>e. unat (index e)) es)"
    unfolding assms by (rule sorted_wrt_upt)
  then show ?thesis by (simp add: sorted_wrt_map word_less_nat_alt)
qed

lemma indices_positive:
  assumes "map (\<lambda>e. unat (index e)) es = [1..<Suc n]" and "e \<in> set es"
  shows "0 < index e"
proof -
  have "unat (index e) \<in> set (map (\<lambda>e. unat (index e)) es)" using assms(2) by auto
  then have "1 \<le> unat (index e)" unfolding assms(1) by auto
  then show ?thesis by (simp add: word_less_nat_alt)
qed

lemma last_committed:
  assumes idx: "map (\<lambda>e. unat (index e)) es = [1..<Suc n]" and i: "unat i \<le> n"
  shows "(if filter (\<lambda>e. index e \<le> i) es = [] then 0
          else index (last (filter (\<lambda>e. index e \<le> i) es))) = i"
proof (cases "i = 0")
  case True
  have "filter (\<lambda>e. index e \<le> i) es = []"
    using indices_positive [OF idx] True by (fastforce simp: filter_empty_conv)
  then show ?thesis using True by simp
next
  case False
  let ?w = "filter (\<lambda>e. index e \<le> i) es"
  have "1 \<le> unat i" using False by (simp add: unat_gt_0 Suc_leI)
  then have "unat i \<in> set (map (\<lambda>e. unat (index e)) es)"
    unfolding idx using i by auto
  then obtain x where x: "x \<in> set es" "unat (index x) = unat i" by auto
  then have xi: "index x = i" by (simp add: word_unat_eq_iff)
  then have xw: "x \<in> set ?w" using x(1) by simp
  then have ne: "?w \<noteq> []" by (metis empty_iff list.set(1))
  have "sorted_wrt (<) (map index ?w)"
    using indices_sorted [OF idx] by (simp add: sorted_wrt_map sorted_wrt_filter)
  then have "sorted_wrt (\<lambda>a b. index a < index b) ?w" by (simp add: sorted_wrt_map)
  then have "x = last ?w \<or> index x < index (last ?w)"
    using sorted_wrt_last [of "\<lambda>a b. index a < index b" ?w x] xw by blast
  then have "i \<le> index (last ?w)" using xi by auto
  moreover have "last ?w \<in> set ?w" using ne by (rule last_in_set)
  then have "index (last ?w) \<le> i" by simp
  ultimately show ?thesis using ne by simp
qed

text \<open>
  The durability prefix for entries that \<open>Decode\<close> reads back: a log is open on an
  empty file with the commit index 0, and the entries \<open>es\<close>, with the indices 1 to
  \<open>n\<close>, hold commands that are registered under a token and whose lines the decoder
  takes whole. If every \<open>Append\<close> of them succeeds, \<open>SetCommitIndex i\<close> with \<open>i\<close> up to
  \<open>n\<close> succeeds, and \<open>os.Open\<close> and \<open>os.OpenFile\<close> do not fail, then \<open>Close\<close> and \<open>Open\<close>
  on the same path return no error and leave in memory exactly the entries with an
  index up to \<open>i\<close>, each equal to the entry appended, and the commit index \<open>i\<close>; the
  file holds their bytes.
\<close>

lemma durability_prefix:
  assumes fresh: "file l = Some path" "entries l = []" "commitIndex l = 0"
      "files fs path = Some []"
    and idx: "map (\<lambda>e. unat (index e)) es = [1..<Suc n]"
    and rt: "\<forall>e \<in> set es. round_trips api (commandTypes l) e"
    and app: "Append_all fs l es = ((fs1, l1), None)"
    and commit: "SetCommitIndex api fs1 l1 i = ((fs2, l2), None)"
    and i: "unat i \<le> n"
    and io: "open_error fs path = None" "openfile_error fs path = None"
  shows "Open api (fst (Close fs2 l2)) (snd (Close fs2 l2)) path =
           ((fs2, l\<lparr>entries := filter (\<lambda>e. index e \<le> i) es, commitIndex := i\<rparr>), None) \<and>
         files fs2 path = Some (concat (map (encoding api) (filter (\<lambda>e. index e \<le> i) es)))"
proof -
  let ?w = "filter (\<lambda>e. index e \<le> i) es"
  have st1: "fs1 = fs" "l1 = l\<lparr>entries := es\<rparr>"
    using Append_all_success [OF app] fresh(2) by simp_all
  have w: "filter (\<lambda>e. commitIndex l1 < index e \<and> index e \<le> i) es = ?w"
    using indices_positive [OF idx] fresh(3) st1(2) by (intro filter_cong) auto
  have loop: "commit_loop api fs l1 i (entries l1) = ((fs2, l2), None)"
    using commit st1 fresh(3) by (simp add: SetCommitIndex_def)
  have l1f: "entries l1 = es" "file l1 = Some path" "commitIndex l1 = 0"
    using st1(2) fresh by simp_all
  then have c: "fs2 = put_file fs path ([] @ concat (map (encoding api) ?w)) \<and>
      l2 = l1\<lparr>commitIndex := (if ?w = [] then commitIndex l1 else index (last ?w))\<rparr>"
    using commit_loop_sorted [OF indices_sorted [OF idx] _ fresh(4), of l1 api i fs2 l2] loop w
    by simp
  have l2: "l2 = l\<lparr>entries := es, commitIndex := i\<rparr>"
    using c last_committed [OF idx i] st1(2) l1f(3) by (auto split: if_splits)
  have fs2: "fs2 = put_file fs path (concat (map (encoding api) ?w))" using c by simp
  let ?lc = "l2\<lparr>file := None, entries := []\<rparr>"
  have f: "files fs2 path = Some (concat (map (encoding api) ?w) @ [])" by (simp add: fs2)
  have v: "\<forall>e \<in> set ?w. round_trips api (commandTypes ?lc) e" using rt l2 by simp
  have g: "garbage []" by (simp add: garbage_def)
  have e: "open_error fs2 path = None" "openfile_error fs2 path = None"
    using io by (simp_all add: fs2)
  have same: "put_file fs2 path (concat (map (encoding api) ?w)) = fs2"
    by (simp add: fs2)
  have ci: "(if ?w = [] then commitIndex ?lc else index (last ?w)) = i"
    using last_committed [OF idx i] l2 by auto
  have "Open api fs2 ?lc path =
        ((fs2, ?lc\<lparr>commitIndex := i, entries := ?w, file := Some path\<rparr>), None)"
    using Open_tail [OF f v g e] by (simp add: Let_def same ci)
  moreover have "?lc\<lparr>commitIndex := i, entries := ?w, file := Some path\<rparr> =
                 l\<lparr>entries := ?w, commitIndex := i\<rparr>"
    using l2 fresh(1) by simp
  ultimately show ?thesis using f by (simp add: Close_def)
qed

section \<open>The claims on the examples\<close>

lemma NewLogEntry_sel [simp]:
  "index (NewLogEntry i t c) = i" "term (NewLogEntry i t c) = t" "command (NewLogEntry i t c) = c"
  by (simp_all add: NewLogEntry_def)

lemma example_api_sel [simp]:
  "Name example_api c = c" "json_Marshal example_api c = Inr ''{}''"
  "reflect_New example_api c = c"
  by (simp_all add: example_api_def)

lemma no_faults_sel [simp]:
  "files no_faults p = None" "open_error no_faults p = None" "truncate_error no_faults p = None"
  "openfile_error no_faults p = None" "write_error no_faults p d = None"
  by (simp_all add: no_faults_def)

lemma noop_log_sel [simp]:
  "file noop_log = None" "entries noop_log = []" "commitIndex noop_log = 0"
  "commandTypes noop_log = [''noop'' \<mapsto> ''noop'']"
  by (simp_all add: noop_log_def NewLog_def)

lemma round_trips_noop:
  "round_trips example_api [''noop'' \<mapsto> ''noop''] (NewLogEntry i t (Some ''noop''))"
  by (simp add: round_trips_def example_api_def token_def one_line_def
      isSpace_def newline_def)

lemma Open_new_file:
  "files fs path = None \<Longrightarrow> openfile_error fs path = None \<Longrightarrow>
   Open api fs l path = ((put_file fs path [], l\<lparr>file := Some path\<rparr>), None)"
  by (simp add: Open_def Open_replay_def os_OpenFile_def)

lemma Encode_File:
  assumes "command e = Some c" and "json_Marshal api c = Inr p"
    and "write_error fs path (encoding api e) = None"
  shows "Encode api e (Some (File_Write (Some path))) fs =
         (file_append fs path (encoding api e), None)"
  using assms
  by (simp add: Encode_encoded_line encoding_encoded_line File_Write_def)

lemma file_append_put_file [simp]:
  "file_append (put_file fs p old) p d = put_file fs p (old @ d)"
  by (simp add: file_append_def)

lemma Encode_File_noop:
  "write_error fs path (encoding example_api (NewLogEntry i t (Some ''noop''))) = None \<Longrightarrow>
   Encode example_api (NewLogEntry i t (Some ''noop'')) (Some (File_Write (Some path))) fs =
     (file_append fs path (encoding example_api (NewLogEntry i t (Some ''noop''))), None)"
  by (rule Encode_File [where c = "''noop''" and p = "''{}''"]) simp_all

lemma run_snoc: "run api st (cs @ [c]) = fst (do_call api (run api st cs) c)"
  by (induction cs arbitrary: st) simp_all



text \<open>
  The scenario of the specification: three entries appended, \<open>SetCommitIndex 2\<close>,
  \<open>Close\<close>, \<open>Open\<close>.
\<close>

lemma durability_prefix_noop:
  "Append_all (put_file no_faults ''log'' []) (noop_log\<lparr>file := Some ''log''\<rparr>)
     [NewLogEntry 1 1 (Some ''noop''), NewLogEntry 2 1 (Some ''noop''),
      NewLogEntry 3 2 (Some ''noop'')] =
     ((put_file no_faults ''log'' [],
       noop_log\<lparr>file := Some ''log'',
         entries := [NewLogEntry 1 1 (Some ''noop''), NewLogEntry 2 1 (Some ''noop''),
                     NewLogEntry 3 2 (Some ''noop'')]\<rparr>), None) \<and>
   SetCommitIndex example_api (put_file no_faults ''log'' [])
     (noop_log\<lparr>file := Some ''log'',
        entries := [NewLogEntry 1 1 (Some ''noop''), NewLogEntry 2 1 (Some ''noop''),
                    NewLogEntry 3 2 (Some ''noop'')]\<rparr>) 2 =
     ((put_file no_faults ''log''
         (encoding example_api (NewLogEntry 1 1 (Some ''noop'')) @
          encoding example_api (NewLogEntry 2 1 (Some ''noop''))),
       noop_log\<lparr>file := Some ''log'',
         entries := [NewLogEntry 1 1 (Some ''noop''), NewLogEntry 2 1 (Some ''noop''),
                     NewLogEntry 3 2 (Some ''noop'')],
         commitIndex := 2\<rparr>), None) \<and>
   Open example_api
     (put_file no_faults ''log''
        (encoding example_api (NewLogEntry 1 1 (Some ''noop'')) @
         encoding example_api (NewLogEntry 2 1 (Some ''noop''))))
     (noop_log\<lparr>commitIndex := 2\<rparr>) ''log'' =
     ((put_file no_faults ''log''
         (encoding example_api (NewLogEntry 1 1 (Some ''noop'')) @
          encoding example_api (NewLogEntry 2 1 (Some ''noop''))),
       noop_log\<lparr>file := Some ''log'',
         entries := [NewLogEntry 1 1 (Some ''noop''), NewLogEntry 2 1 (Some ''noop'')],
         commitIndex := 2\<rparr>), None)"
proof -
  let ?e1 = "NewLogEntry 1 1 (Some ''noop'')" and ?e2 = "NewLogEntry 2 1 (Some ''noop'')"
    and ?e3 = "NewLogEntry 3 2 (Some ''noop'')"
  let ?es = "[?e1, ?e2, ?e3]"
  let ?fs = "put_file no_faults ''log'' []"
  let ?l = "noop_log\<lparr>file := Some ''log''\<rparr>"
  let ?l1 = "?l\<lparr>entries := ?es\<rparr>"
  let ?fs2 = "put_file no_faults ''log'' (encoding example_api ?e1 @ encoding example_api ?e2)"
  let ?l2 = "?l1\<lparr>commitIndex := 2\<rparr>"
  have fresh: "file ?l = Some ''log''" "entries ?l = []" "commitIndex ?l = 0"
    "files ?fs ''log'' = Some []"
    by simp_all
  have idx: "map (\<lambda>e. unat (index e)) ?es = [1..<Suc 3]"
    by (simp add: upt_rec)
  have rt: "\<forall>e \<in> set ?es. round_trips example_api (commandTypes ?l) e"
    by (simp add: round_trips_noop)
  have app: "Append_all ?fs ?l ?es = ((?fs, ?l1), None)"
    by (simp add: Append_def)
  have commit: "SetCommitIndex example_api ?fs ?l1 2 = ((?fs2, ?l2), None)"
    by (simp add: SetCommitIndex_def Encode_File_noop)
  have i: "unat (2 :: 64 word) \<le> 3" by simp
  have io: "open_error ?fs ''log'' = None" "openfile_error ?fs ''log'' = None"
    by simp_all
  have flt: "filter (\<lambda>e. index e \<le> 2) ?es = [?e1, ?e2]"
    by simp
  have c: "Close ?fs2 ?l2 = (?fs2, noop_log\<lparr>commitIndex := 2\<rparr>)"
    by (simp add: Close_def noop_log_def NewLog_def)
  note t = durability_prefix [OF fresh idx rt app commit i io, unfolded c flt fst_conv snd_conv]
  have "?l\<lparr>entries := [?e1, ?e2], commitIndex := 2\<rparr> =
        noop_log\<lparr>file := Some ''log'', entries := [?e1, ?e2], commitIndex := 2\<rparr>"
    by simp
  then show ?thesis using t app commit by simp
qed


lemma Decode_unregistered:
  assumes nm: "token (Name api c)" and p: "one_line p" and reg: "types (Name api c) = None"
  shows "snd (Decode api types e0 (Some (encoded_line api e c p @ rest))) =
         Inl (UnableToInstantiate (Name api c) (UnregisteredCommandType (Name api c)))"
proof -
  have "newline \<notin> set (Name api c)" using nm isSpace_newline by (auto simp: token_def)
  moreover have "newline \<notin> set p" using p by (simp add: one_line_def)
  ultimately obtain l where l: "payload_line api e c p = l @ [newline]" "newline \<notin> set l"
    "encoded_line api e c p = fmt_08x (ChecksumIEEE (l @ [newline])) @ CHR '' '' # l @ [newline]"
    using payload_line_newline [of api c p e] by blast
  have s3: "Fscanf_line (l @ [newline]) = Inr (index e, term e, Name api c, p @ [newline])"
    using Fscanf_line_payload_line [OF nm p, of e] l(1) by simp
  have s4: "NewCommand api types (Name api c) = Inl (UnregisteredCommandType (Name api c))"
    by (simp add: NewCommand_def reg)
  show ?thesis
    using Decode_checked_line [OF l(2), of api types e0 rest]
    by (simp add: l(3) s3 s4)
qed

text \<open>
  On the new log no command type is registered. The entry is appended and
  \<open>SetCommitIndex 1\<close> writes it and returns no error. After \<open>Close\<close>, \<open>Open\<close> cannot
  instantiate the command, takes the line for a crash tail and cuts the file to
  nothing: no entry is in memory and none in the file.
\<close>

lemma durability_needs_registered_commands:
  "do_call example_api
     (run example_api (no_faults, NewLog)
        [Call_Open ''log'', Call_Append (NewLogEntry 1 1 (Some ''noop''))])
     (Call_SetCommitIndex 1) =
     ((put_file no_faults ''log'' (encoding example_api (NewLogEntry 1 1 (Some ''noop''))),
       NewLog\<lparr>file := Some ''log'', entries := [NewLogEntry 1 1 (Some ''noop'')],
         commitIndex := 1\<rparr>), None) \<and>
   run example_api (no_faults, NewLog)
     [Call_Open ''log'', Call_Append (NewLogEntry 1 1 (Some ''noop'')), Call_SetCommitIndex 1,
      Call_Close, Call_Open ''log''] =
     (put_file no_faults ''log'' [], NewLog\<lparr>file := Some ''log'', entries := [],
        commitIndex := 1\<rparr>)"
proof -
  let ?e = "NewLogEntry 1 1 (Some ''noop'')"
  let ?enc = "encoding example_api ?e"
  let ?l1 = "NewLog\<lparr>file := Some ''log''\<rparr> :: string Log"
  let ?l2 = "?l1\<lparr>entries := [?e]\<rparr>"
  let ?l3 = "?l2\<lparr>commitIndex := 1\<rparr>"
  let ?fs3 = "put_file no_faults ''log'' ?enc"
  let ?l4 = "NewLog\<lparr>commitIndex := 1\<rparr> :: string Log"
  have n: "file (NewLog :: string Log) = None" "entries (NewLog :: string Log) = []"
    "commitIndex (NewLog :: string Log) = 0" "commandTypes (NewLog :: string Log) = Map.empty"
    by (simp_all add: NewLog_def)
  have s2: "run example_api (no_faults, NewLog) [Call_Open ''log'', Call_Append ?e] =
            (put_file no_faults ''log'' [], ?l2)"
    by (simp add: Open_new_file Append_def n)
  have s3: "SetCommitIndex example_api (put_file no_faults ''log'' []) ?l2 1 = ((?fs3, ?l3), None)"
    by (simp add: SetCommitIndex_def Encode_File_noop n)
  have s4: "Close ?fs3 ?l3 = (?fs3, ?l4)"
    by (simp add: Close_def NewLog_def)
  have enc: "?enc = encoded_line example_api ?e ''noop'' ''{}''"
    by (rule encoding_encoded_line) simp_all
  have ne: "?enc \<noteq> []" unfolding enc by (simp add: encoded_line_def)
  have d: "snd (Decode example_api (commandTypes ?l4) (NewLogEntry 0 0 None) (Some ?enc)) =
           Inl (UnableToInstantiate ''noop'' (UnregisteredCommandType ''noop''))"
    unfolding enc
    using Decode_unregistered [of example_api "''noop''" "''{}''" "commandTypes ?l4"
        "NewLogEntry 0 0 None" ?e "[]"]
    by (simp add: token_def one_line_def isSpace_def newline_def n)
  have r: "read_entries example_api ?l4 ?enc 0 =
           (?l4, 0, Some (UnableToInstantiate ''noop'' (UnregisteredCommandType ''noop'')))"
    by (rule read_entries_stop [OF d ne])
  have s5: "Open example_api ?fs3 ?l4 ''log'' =
            ((put_file no_faults ''log'' [], ?l4\<lparr>file := Some ''log''\<rparr>), None)"
    by (simp add: Open_def Open_replay_def r os_Truncate_def os_OpenFile_def)
  have fin: "?l4\<lparr>file := Some ''log''\<rparr> =
             NewLog\<lparr>file := Some ''log'', entries := [], commitIndex := 1\<rparr>"
    by (simp add: NewLog_def)
  have a: "do_call example_api (run example_api (no_faults, NewLog)
             [Call_Open ''log'', Call_Append ?e]) (Call_SetCommitIndex 1) = ((?fs3, ?l3), None)"
    unfolding s2 using s3 by simp
  have b: "run example_api (no_faults, NewLog)
             [Call_Open ''log'', Call_Append ?e, Call_SetCommitIndex 1, Call_Close,
              Call_Open ''log''] =
           run example_api (run example_api (no_faults, NewLog)
             [Call_Open ''log'', Call_Append ?e])
             [Call_SetCommitIndex 1, Call_Close, Call_Open ''log'']"
    by simp
  have c: "run example_api (put_file no_faults ''log'' [], ?l2)
             [Call_SetCommitIndex 1, Call_Close, Call_Open ''log''] =
           (put_file no_faults ''log'' [], ?l4\<lparr>file := Some ''log''\<rparr>)"
    by (simp add: s3 s4 s5)
  show ?thesis
    unfolding b s2 c fin using a [unfolded s2] by simp
qed


theorem commitIndex_monotone_witness:
  "commitIndex open_log \<le>
     commitIndex (snd (run example_api (no_faults, open_log)
       [Call_Append (NewLogEntry 2 2 None), Call_SetCommitIndex 2, Call_Close])) \<and>
   SetCommitIndex example_api no_faults open_log 0 =
     ((no_faults, open_log), Some (CommitIndexAhead 1 0))"
proof -
  have c: "commitIndex open_log = 1" by (simp add: open_log_def)
  note t = commitIndex_monotone [of "[Call_Append (NewLogEntry 2 2 None),
      Call_SetCommitIndex 2, Call_Close]" open_log example_api no_faults 0]
  have a: "commitIndex open_log \<le>
     commitIndex (snd (run example_api (no_faults, open_log)
       [Call_Append (NewLogEntry 2 2 None), Call_SetCommitIndex 2, Call_Close]))"
    using t by simp
  have b: "SetCommitIndex example_api no_faults open_log 0 =
     ((no_faults, open_log), Some (CommitIndexAhead (commitIndex open_log) 0))"
    using t c by simp
  show ?thesis using a b c by simp
qed

text \<open>
  C5 as stated fails with \<open>Open\<close> among the calls: \<open>Open\<close> assigns to the commit index
  the index of each entry it reads. The log commits index 1 to the file \<open>A\<close> and, after
  \<open>Close\<close>, index 2 to the file \<open>B\<close>; its commit index is 2. After \<open>Close\<close> and \<open>Open\<close> of
  \<open>A\<close> it is 1.
\<close>

theorem Open_lowers_commitIndex:
  "commitIndex (snd (run example_api (no_faults, noop_log)
     [Call_Open ''A'', Call_Append (NewLogEntry 1 1 (Some ''noop'')), Call_SetCommitIndex 1,
      Call_Close,
      Call_Open ''B'', Call_Append (NewLogEntry 2 1 (Some ''noop'')), Call_SetCommitIndex 2,
      Call_Close])) = 2 \<and>
   commitIndex (snd (run example_api (no_faults, noop_log)
     [Call_Open ''A'', Call_Append (NewLogEntry 1 1 (Some ''noop'')), Call_SetCommitIndex 1,
      Call_Close,
      Call_Open ''B'', Call_Append (NewLogEntry 2 1 (Some ''noop'')), Call_SetCommitIndex 2,
      Call_Close,
      Call_Open ''A''])) = 1"
proof -
  let ?e1 = "NewLogEntry 1 1 (Some ''noop'')" and ?e2 = "NewLogEntry 2 1 (Some ''noop'')"
  let ?cs = "[Call_Open ''A'', Call_Append ?e1, Call_SetCommitIndex 1, Call_Close,
              Call_Open ''B'', Call_Append ?e2, Call_SetCommitIndex 2, Call_Close]"
  let ?fs = "put_file (put_file no_faults ''A'' (encoding example_api ?e1)) ''B''
               (encoding example_api ?e2)"
  let ?l = "noop_log\<lparr>commitIndex := 2\<rparr>"
  have s4: "run example_api (no_faults, noop_log)
              [Call_Open ''A'', Call_Append ?e1, Call_SetCommitIndex 1, Call_Close] =
            (put_file no_faults ''A'' (encoding example_api ?e1), noop_log\<lparr>commitIndex := 1\<rparr>)"
    by (simp add: Open_new_file Append_def SetCommitIndex_def Encode_File_noop Close_def
        noop_log_def NewLog_def)
  have s8: "run example_api
              (put_file no_faults ''A'' (encoding example_api ?e1), noop_log\<lparr>commitIndex := 1\<rparr>)
              [Call_Open ''B'', Call_Append ?e2, Call_SetCommitIndex 2, Call_Close] = (?fs, ?l)"
    by (simp add: Open_new_file Append_def SetCommitIndex_def Encode_File_noop Close_def
        noop_log_def NewLog_def)
  have split: "?cs = [Call_Open ''A'', Call_Append ?e1, Call_SetCommitIndex 1, Call_Close] @
                     [Call_Open ''B'', Call_Append ?e2, Call_SetCommitIndex 2, Call_Close]"
    by simp
  have run_append: "run api st (xs @ ys) = run api (run api st xs) ys" for api st xs ys
    by (induction xs arbitrary: st) simp_all
  have r8: "run example_api (no_faults, noop_log) ?cs = (?fs, ?l)"
    unfolding split run_append s4 s8 ..
  have f: "files ?fs ''A'' = Some (concat (map (encoding example_api) [?e1]) @ [])"
    by simp
  have v: "\<forall>e \<in> set [?e1]. round_trips example_api (commandTypes ?l) e"
    by (simp add: round_trips_noop)
  have g: "garbage []" by (simp add: garbage_def)
  have io: "open_error ?fs ''A'' = None" "openfile_error ?fs ''A'' = None"
    by simp_all
  have o: "commitIndex (snd (fst (Open example_api ?fs ?l ''A''))) = 1"
    using Open_tail [OF f v g io] by (simp add: Let_def)
  have r9: "run example_api (no_faults, noop_log) (?cs @ [Call_Open ''A'']) =
            fst (Open example_api ?fs ?l ''A'')"
    unfolding run_snoc r8 by simp
  have "commitIndex (snd (run example_api (no_faults, noop_log) (?cs @ [Call_Open ''A'']))) = 1"
    unfolding r9 by (rule o)
  then show ?thesis using r8 by simp
qed

section \<open>A payload that fills the first read of the decoder\<close>

text \<open>
  \<open>Decode\<close> on the bytes \<open>Encode\<close> has written, where the decoder leaves a byte of the
  line in the buffer: the byte is reported.
\<close>

lemma Decode_encoded_line_left:
  assumes nm: "token (Name api c)" and p: "one_line p"
    and reg: "types (Name api c) = Some proto"
    and dec: "json_Decode api (reflect_New api proto) (p @ [newline]) = Inr (c', x # xs)"
  shows "Decode api types e0 (Some (encoded_line api e c p @ rest)) =
         (length (encoded_line api e c p), Inl (ExpectedEOL x))"
proof -
  have "newline \<notin> set (Name api c)" using nm isSpace_newline by (auto simp: token_def)
  moreover have "newline \<notin> set p" using p by (simp add: one_line_def)
  ultimately obtain l where l: "payload_line api e c p = l @ [newline]" "newline \<notin> set l"
    "encoded_line api e c p = fmt_08x (ChecksumIEEE (l @ [newline])) @ CHR '' '' # l @ [newline]"
    using payload_line_newline [of api c p e] by blast
  have s3: "Fscanf_line (l @ [newline]) = Inr (index e, term e, Name api c, p @ [newline])"
    using Fscanf_line_payload_line [OF nm p, of e] l(1) by simp
  have s4: "NewCommand api types (Name api c) = Inr (reflect_New api proto)"
    by (simp add: NewCommand_def reg)
  have len: "length (encoded_line api e c p) = 10 + length l"
    using l(1) by (simp add: length_encoded_line)
  show ?thesis
    using Decode_checked_line [OF l(2), of api types e0 rest]
    by (simp add: l(3) s3 s4 dec length_fmt_08x)
qed

lemma blob_api_sel [simp]:
  "Name blob_api c = ''blob''" "json_Marshal blob_api c = blob_Marshal c"
  "reflect_New blob_api c = []"
  by (simp_all add: blob_api_def)

lemma blob_log_sel [simp]:
  "file blob_log = None" "entries blob_log = []" "commitIndex blob_log = 0"
  "commandTypes blob_log = [''blob'' \<mapsto> []]"
  by (simp_all add: blob_log_def NewLog_def)

lemma token_blob: "token ''blob''"
  by (simp add: token_def isSpace_def)

lemma one_line_blob_json: "list_all plain d \<Longrightarrow> one_line (blob_json d)"
  using plain_props by (auto simp: one_line_def blob_json_def isSpace_def newline_def dquote_def list_all_iff)

lemma length_letters [simp]: "length (letters n) = n"
  by (simp add: letters_def)

lemma plain_letters: "list_all plain (letters n)"
  by (simp add: letters_def list_all_iff plain_def dquote_def backslash_def)

lemma blob_entry_sel [simp]:
  "index (blob_entry n) = 1" "term (blob_entry n) = 1"
  "command (blob_entry n) = Some (letters n)"
  by (simp_all add: blob_entry_def)

lemma blob_Marshal_plain: "list_all plain d \<Longrightarrow> blob_Marshal d = Inr (blob_json d)"
  by (simp add: blob_Marshal_def)

lemma encoding_blob:
  "list_all plain d \<Longrightarrow> command e = Some d \<Longrightarrow>
   encoding blob_api e = encoded_line blob_api e d (blob_json d)"
  by (rule encoding_encoded_line) (simp_all add: blob_Marshal_plain)

lemma length_encoding_blob:
  "list_all plain d \<Longrightarrow> command e = Some d \<Longrightarrow> length (encoding blob_api e) = length d + 57"
  by (simp add: encoding_blob length_encoded_line payload_line_def length_fmt_016x
      length_blob_json)

text \<open>
  A payload of exactly 512 bytes is what the first read of the decoder takes: the
  decoder returns at the closing brace, and the newline is left in the buffer.
\<close>

lemma Decode_blob_512:
  assumes d: "list_all plain d" and len: "length d = 504" and e: "command e = Some d"
  shows "Decode blob_api [''blob'' \<mapsto> []] e0 (Some (encoding blob_api e @ rest)) =
         (561, Inl (ExpectedEOL newline))"
proof -
  have eq: "drop 512 (blob_json d @ [newline]) = [newline]"
    using len by (simp add: length_blob_json)
  have "length d + 8 \<le> 512" using len by simp
  from json_Decode_blob [OF d this, of "[]" "[newline]"]
  have j: "json_Decode blob_api [] (blob_json d @ [newline]) = Inr (d, newline # [])"
    unfolding eq .
  have "Decode blob_api [''blob'' \<mapsto> []] e0
          (Some (encoded_line blob_api e d (blob_json d) @ rest)) =
        (length (encoded_line blob_api e d (blob_json d)), Inl (ExpectedEOL newline))"
    by (rule Decode_encoded_line_left [where proto = "[]" and c' = d and xs = "[]"])
       (simp_all add: token_blob one_line_blob_json [OF d] j)
  then show ?thesis
    using length_encoding_blob [OF d e] len by (simp add: encoding_blob [OF d e])
qed

text \<open>A shorter payload is read with its newline, and the entry comes back.\<close>

lemma round_trips_blob:
  assumes "list_all plain d" and "length d < 504"
  shows "round_trips blob_api [''blob'' \<mapsto> []] (NewLogEntry i t (Some d))"
proof -
  have "drop 512 (blob_json d @ [newline]) = []"
    using assms(2) by (simp add: length_blob_json)
  then have "json_Decode blob_api [] (blob_json d @ [newline]) = Inr (d, [])"
    using json_Decode_blob [OF assms(1), of "[]" "[newline]"] assms(2) by simp
  then show ?thesis
    using assms(1)
    by (simp add: round_trips_def blob_Marshal_plain token_blob one_line_blob_json)
qed

text \<open>
  C4. The entry holds a command of the registered type \<open>blob\<close> with 504 letters. The
  command serializes to a payload of 512 bytes, which deserializes cleanly, and
  \<open>Encode\<close> writes the entry, in 561 bytes. \<open>Decode\<close> on these bytes returns their
  number and the error \<open>Expected EOL, received 0a\<close>, where the claim has it
  succeed: the decoder has taken the payload with its first read and has returned at
  the closing brace, so that the newline is still in the buffer at the last test.
  With 503 letters the entry comes back.
\<close>

theorem Decode_rejects_payload_of_512_bytes:
  "commandTypes blob_log (Name blob_api (letters 504)) = Some [] \<and>
   json_Marshal blob_api (letters 504) = Inr (blob_json (letters 504)) \<and>
   length (blob_json (letters 504)) = 512 \<and>
   json_Decode blob_api (reflect_New blob_api []) (blob_json (letters 504)) =
     Inr (letters 504, []) \<and>
   Encode blob_api (blob_entry 504) (Some buffer_Write) [] =
     (encoding blob_api (blob_entry 504), None) \<and>
   length (encoding blob_api (blob_entry 504)) = 561 \<and>
   Decode blob_api (commandTypes blob_log) (NewLogEntry 0 0 None)
     (Some (encoding blob_api (blob_entry 504))) =
     (length (encoding blob_api (blob_entry 504)), Inl (ExpectedEOL newline)) \<and>
   Decode blob_api (commandTypes blob_log) (NewLogEntry 0 0 None)
     (Some (encoding blob_api (blob_entry 503))) =
     (length (encoding blob_api (blob_entry 503)), Inr (blob_entry 503, []))"
proof -
  let ?d = "letters 504"
  note p = plain_letters [of 504]
  have a: "commandTypes blob_log (Name blob_api ?d) = Some []" by simp
  have b: "json_Marshal blob_api ?d = Inr (blob_json ?d)"
    by (simp add: blob_Marshal_plain [OF p])
  have c: "length (blob_json ?d) = 512" by (simp add: length_blob_json)
  have "drop 512 (blob_json ?d @ []) = []" by (simp add: length_blob_json)
  then have d: "json_Decode blob_api (reflect_New blob_api []) (blob_json ?d) = Inr (?d, [])"
    using json_Decode_blob [OF p, of "[]" "[]"] by simp
  have e: "Encode blob_api (blob_entry 504) (Some buffer_Write) [] =
           (encoding blob_api (blob_entry 504), None)"
    using Encode_encoded_line [of "blob_entry 504" ?d blob_api "blob_json ?d" buffer_Write "[]"] b
    by (simp add: encoding_blob [OF p] buffer_Write_def)
  have n: "length (encoding blob_api (blob_entry 504)) = 561"
    using length_encoding_blob [OF p, of "blob_entry 504"] by simp
  have f: "Decode blob_api (commandTypes blob_log) (NewLogEntry 0 0 None)
             (Some (encoding blob_api (blob_entry 504))) =
           (length (encoding blob_api (blob_entry 504)), Inl (ExpectedEOL newline))"
    unfolding n
    using Decode_blob_512 [OF p, of "blob_entry 504" "NewLogEntry 0 0 None" "[]"] by simp
  have "round_trips blob_api [''blob'' \<mapsto> []] (blob_entry 503)"
    unfolding blob_entry_def by (rule round_trips_blob) (simp_all add: plain_letters)
  then have g: "Decode blob_api (commandTypes blob_log) (NewLogEntry 0 0 None)
             (Some (encoding blob_api (blob_entry 503))) =
           (length (encoding blob_api (blob_entry 503)), Inr (blob_entry 503, []))"
    using Decode_round_trips [of blob_api "[''blob'' \<mapsto> []]" "blob_entry 503" "[]"] by simp
  show ?thesis by (intro conjI) (fact a b c d e n f g)+
qed

text \<open>
  A log with the command type \<open>blob\<close> is opened on a new file, an entry is appended
  and committed, and the log is closed.
\<close>

lemma blob_commit:
  "do_call blob_api
     (run blob_api (no_faults, blob_log) [Call_Open ''log'', Call_Append (blob_entry n)])
     (Call_SetCommitIndex 1) =
     ((put_file no_faults ''log'' (encoding blob_api (blob_entry n)),
       blob_log\<lparr>file := Some ''log'', entries := [blob_entry n], commitIndex := 1\<rparr>), None)"
  "run blob_api (no_faults, blob_log)
     [Call_Open ''log'', Call_Append (blob_entry n), Call_SetCommitIndex 1, Call_Close] =
   (put_file no_faults ''log'' (encoding blob_api (blob_entry n)), blob_log\<lparr>commitIndex := 1\<rparr>)"
proof -
  let ?e = "blob_entry n"
  let ?enc = "encoding blob_api ?e"
  let ?l2 = "blob_log\<lparr>file := Some ''log'', entries := [?e]\<rparr>"
  let ?l3 = "?l2\<lparr>commitIndex := 1\<rparr>"
  let ?fs3 = "put_file no_faults ''log'' ?enc"
  note p = plain_letters [of n]
  have s2: "run blob_api (no_faults, blob_log) [Call_Open ''log'', Call_Append ?e] =
            (put_file no_faults ''log'' [], ?l2)"
    by (simp add: Open_new_file Append_def)
  have w: "Encode blob_api ?e (Some (File_Write (Some ''log''))) (put_file no_faults ''log'' []) =
           (file_append (put_file no_faults ''log'' []) ''log'' ?enc, None)"
    by (rule Encode_File [where c = "letters n" and p = "blob_json (letters n)"])
       (simp_all add: blob_Marshal_plain [OF p])
  have s3: "SetCommitIndex blob_api (put_file no_faults ''log'' []) ?l2 1 = ((?fs3, ?l3), None)"
    by (simp add: SetCommitIndex_def w)
  have s4: "Close ?fs3 ?l3 = (?fs3, blob_log\<lparr>commitIndex := 1\<rparr>)"
    by (simp add: Close_def blob_log_def NewLog_def)
  show "do_call blob_api (run blob_api (no_faults, blob_log)
          [Call_Open ''log'', Call_Append ?e]) (Call_SetCommitIndex 1) = ((?fs3, ?l3), None)"
    unfolding s2 using s3 by simp
  have split: "run blob_api (no_faults, blob_log)
             [Call_Open ''log'', Call_Append ?e, Call_SetCommitIndex 1, Call_Close] =
           run blob_api (run blob_api (no_faults, blob_log) [Call_Open ''log'', Call_Append ?e])
             [Call_SetCommitIndex 1, Call_Close]"
    by simp
  show "run blob_api (no_faults, blob_log)
          [Call_Open ''log'', Call_Append ?e, Call_SetCommitIndex 1, Call_Close] =
        (?fs3, blob_log\<lparr>commitIndex := 1\<rparr>)"
    unfolding split s2 by (simp add: s3 s4)
qed

text \<open>
  C1. The log has the command type \<open>blob\<close> registered and is opened on a new file. The
  entry of index 1 with 504 letters is appended, and \<open>SetCommitIndex 1\<close> writes it and
  returns no error. After \<open>Close\<close>, \<open>Open\<close> on the same path returns no error, with no
  entry in memory and an empty file, where the claim has the entry of index 1 there:
  \<open>Decode\<close> has failed at its last test, and \<open>Open\<close> has taken the committed line for
  a crash tail and cut it off. With 503 letters the entry is there after \<open>Open\<close>.
\<close>

theorem committed_entry_lost_on_reopen:
  "AddCommandType blob_api NewLog (Some []) = Inr blob_log \<and>
   do_call blob_api
     (run blob_api (no_faults, blob_log) [Call_Open ''log'', Call_Append (blob_entry 504)])
     (Call_SetCommitIndex 1) =
     ((put_file no_faults ''log'' (encoding blob_api (blob_entry 504)),
       blob_log\<lparr>file := Some ''log'', entries := [blob_entry 504], commitIndex := 1\<rparr>), None) \<and>
   do_call blob_api
     (run blob_api (no_faults, blob_log)
        [Call_Open ''log'', Call_Append (blob_entry 504), Call_SetCommitIndex 1, Call_Close])
     (Call_Open ''log'') =
     ((put_file no_faults ''log'' [],
       blob_log\<lparr>file := Some ''log'', entries := [], commitIndex := 1\<rparr>), None) \<and>
   do_call blob_api
     (run blob_api (no_faults, blob_log)
        [Call_Open ''log'', Call_Append (blob_entry 503), Call_SetCommitIndex 1, Call_Close])
     (Call_Open ''log'') =
     ((put_file no_faults ''log'' (encoding blob_api (blob_entry 503)),
       blob_log\<lparr>file := Some ''log'', entries := [blob_entry 503], commitIndex := 1\<rparr>), None)"
proof -
  let ?e = "blob_entry 504"
  let ?enc = "encoding blob_api ?e"
  let ?fs3 = "put_file no_faults ''log'' ?enc"
  let ?l4 = "blob_log\<lparr>commitIndex := 1\<rparr>"
  note p = plain_letters [of 504]
  have reg: "AddCommandType blob_api NewLog (Some []) = Inr blob_log"
    by (simp add: AddCommandType_def blob_log_def NewLog_def)
  have ne: "?enc \<noteq> []"
    using length_encoding_blob [OF p, of ?e] by auto
  have d: "snd (Decode blob_api (commandTypes ?l4) (NewLogEntry 0 0 None) (Some ?enc)) =
           Inl (ExpectedEOL newline)"
    using Decode_blob_512 [OF p, of ?e "NewLogEntry 0 0 None" "[]"] by simp
  have r: "read_entries blob_api ?l4 ?enc 0 = (?l4, 0, Some (ExpectedEOL newline))"
    by (rule read_entries_stop [OF d ne])
  have s5: "Open blob_api ?fs3 ?l4 ''log'' =
            ((put_file no_faults ''log'' [], ?l4\<lparr>file := Some ''log''\<rparr>), None)"
    by (simp add: Open_def Open_replay_def r os_Truncate_def os_OpenFile_def)
  have fin: "?l4\<lparr>file := Some ''log''\<rparr> =
             blob_log\<lparr>file := Some ''log'', entries := [], commitIndex := 1\<rparr>"
    by (simp add: blob_log_def NewLog_def)
  have b: "do_call blob_api (run blob_api (no_faults, blob_log)
             [Call_Open ''log'', Call_Append ?e, Call_SetCommitIndex 1, Call_Close])
             (Call_Open ''log'') =
           ((put_file no_faults ''log'' [],
             blob_log\<lparr>file := Some ''log'', entries := [], commitIndex := 1\<rparr>), None)"
    unfolding blob_commit(2) do_call.simps s5 fin ..
  let ?e' = "blob_entry 503"
  let ?fs' = "put_file no_faults ''log'' (encoding blob_api ?e')"
  have f: "files ?fs' ''log'' = Some (concat (map (encoding blob_api) [?e']) @ [])"
    by simp
  have "round_trips blob_api [''blob'' \<mapsto> []] ?e'"
    unfolding blob_entry_def by (rule round_trips_blob) (simp_all add: plain_letters)
  then have v: "\<forall>e \<in> set [?e']. round_trips blob_api (commandTypes ?l4) e" by simp
  have g: "garbage []" by (simp add: garbage_def)
  have io: "open_error ?fs' ''log'' = None" "openfile_error ?fs' ''log'' = None"
    by simp_all
  have o: "Open blob_api ?fs' ?l4 ''log'' =
           ((?fs', blob_log\<lparr>file := Some ''log'', entries := [?e'], commitIndex := 1\<rparr>), None)"
    using Open_tail [OF f v g io] by (simp add: Let_def blob_log_def NewLog_def)
  have c: "do_call blob_api (run blob_api (no_faults, blob_log)
             [Call_Open ''log'', Call_Append ?e', Call_SetCommitIndex 1, Call_Close])
             (Call_Open ''log'') =
           ((?fs', blob_log\<lparr>file := Some ''log'', entries := [?e'], commitIndex := 1\<rparr>), None)"
    unfolding blob_commit(2) do_call.simps o ..
  show ?thesis by (intro conjI) (fact reg blob_commit(1) b c)+
qed

end
